theory Spec2Isabelle
  imports Complex_Main
begin

section \<open>Live transcription pipeline of the meeting demo (meetingV2.ts)\<close>

text \<open>
  The development embeds the transcript event handler of
  \<^verbatim>\<open>src/demos/browser/app/meetingV2/meetingV2.ts\<close> (lines 3777 to 3999):
  \<^verbatim>\<open>transcriptEventHandler\<close>, \<^verbatim>\<open>renderPartialTranscriptResults\<close>,
  \<^verbatim>\<open>updatePartialTranscriptDiv\<close>, \<^verbatim>\<open>populatePartialTranscriptSegmentsFromResult\<close>,
  \<^verbatim>\<open>createSpaceSpan\<close> and \<^verbatim>\<open>appendNewSpeakerTranscriptDiv\<close>.

  Conventions of the embedding.
  \<^item> A time stamp (milliseconds) is the integer value of a JavaScript number, a double.
    Comparing two of them is exact; a difference is rounded as the double arithmetic of
    the source rounds it (\<open>jsMinus\<close>), which is the exact difference up to \<open>2^53\<close>
    in absolute value.
  \<^item> A variable that holds \<^verbatim>\<open>null\<close> or \<^verbatim>\<open>undefined\<close> is an \<open>option\<close>.
  \<^item> A JavaScript \<^verbatim>\<open>Map\<close> is an association list in insertion order, a
    \<^verbatim>\<open>Set\<close> of strings a HOL set.
  \<^item> A thrown exception is a value; an instance field written before the throw keeps
    its new value, as it does in JavaScript.
  \<^item> DOM elements are trees of class list, own text and children.
\<close>

subsection \<open>Data received from the transcription service\<close>

datatype TranscriptItemType = PRONUNCIATION | PUNCTUATION

record Attendee =
  attendeeId :: string
  externalUserId :: string

text \<open>
  \<open>item_confidence\<close> is \<open>None\<close> when the item has no own property
  \<^verbatim>\<open>confidence\<close>; otherwise it is the exact rational value of the (finite)
  floating-point number stored there.
\<close>

record TranscriptItem =
  item_content :: string
  item_type :: TranscriptItemType
  item_startTimeMs :: int
  item_endTimeMs :: int
  item_attendee :: Attendee
  item_confidence :: "rat option"

record TranscriptEntity =
  entity_content :: string

record TranscriptAlternative =
  items :: "TranscriptItem list"
  entities :: "TranscriptEntity list option"

record TranscriptResult =
  resultId :: string
  isPartial :: bool
  languageCode :: "string option"
  alternatives :: "TranscriptAlternative list"
  endTimeMs :: int

datatype error = TypeError | SyntaxError

subsection \<open>DOM elements\<close>

datatype element = Element (classList: "string list") (innerText: string) (childNodes: "element list")

definition createElement :: element where
  "createElement = Element [] [] []"

definition appendChild :: "element \<Rightarrow> element \<Rightarrow> element" where
  "appendChild parent child =
     Element (classList parent) (innerText parent) (childNodes parent @ [child])"

text \<open>The text a reader sees: the element's own text followed by its children's, in order.\<close>

fun textContent :: "element \<Rightarrow> string" where
  "textContent (Element cl t cs) = t @ concat (map textContent cs)"

text \<open>The no-break space U+00A0, in UTF-8.\<close>

definition nbsp :: string where
  "nbsp = [CHR 0xC2, CHR 0xA0]"

definition createSpaceSpan :: element where
  "createSpaceSpan = Element [''transcript-content''] nbsp []"

subsection \<open>Differences of time stamps\<close>

text \<open>
  The distance between neighbouring doubles at the magnitude \<open>m\<close>: 1 below
  \<open>2^53 = 9007199254740992\<close>, and doubling with every further bit.
\<close>

function ulp :: "nat \<Rightarrow> nat" where
  "ulp m = (if m < 9007199254740992 then 1 else 2 * ulp (m div 2))"
  by pat_completeness auto
termination
  by (relation "measure id") auto

declare ulp.simps [simp del]

text \<open>
  Rounding a natural number to the nearest double, ties to the even significand. The
  integers of the model stand for finite doubles; a difference of two of them stays
  below \<open>2^1024\<close>, where rounding does not overflow.
\<close>

definition roundToDouble :: "nat \<Rightarrow> nat" where
  "roundToDouble m =
     (let u = ulp m; q = m div u; r = m mod u in
      if 2 * r < u then q * u
      else if u < 2 * r then (q + 1) * u
      else if even q then q * u
      else (q + 1) * u)"

definition doubleOfInt :: "int \<Rightarrow> int" where
  "doubleOfInt n = sgn n * int (roundToDouble (nat \<bar>n\<bar>))"

text \<open>\<^verbatim>\<open>a - b\<close> on two integer-valued doubles.\<close>

definition jsMinus :: "int \<Rightarrow> int \<Rightarrow> int" where
  "jsMinus a b = doubleOfInt (a - b)"

subsection \<open>Segment builder\<close>

record TranscriptSegment =
  seg_contentSpan :: element
  seg_attendee :: "Attendee option"
  seg_startTimeMs :: int
  seg_endTimeMs :: int

text \<open>
  The literal \<^verbatim>\<open>0.3\<close> of the source denotes the double nearest to three tenths,
  \<open>5404319552844595 / 2^54\<close>; the comparison of two finite doubles is the comparison of
  their values.
\<close>

definition confidenceThreshold :: rat where
  "confidenceThreshold = 5404319552844595 / 2 ^ 54"

definition startsWith :: "string \<Rightarrow> char \<Rightarrow> bool" where
  "startsWith s c = (case s of [] \<Rightarrow> False | d # _ \<Rightarrow> d = c)"

definition lowConfidence :: "TranscriptItem \<Rightarrow> bool" where
  "lowConfidence item =
     (case item_confidence item of
        None \<Rightarrow> False
      | Some c \<Rightarrow> \<not> startsWith (item_content item) (CHR ''['') \<and> c < confidenceThreshold)"

definition isEntity :: "string set \<Rightarrow> TranscriptItem \<Rightarrow> bool" where
  "isEntity transcriptEntitySet item =
     (transcriptEntitySet \<noteq> {} \<and> item_content item \<in> transcriptEntitySet)"

text \<open>Lines 3921 to 3937: the span of one item and its highlight classes.\<close>

definition itemContentSpan :: "string set \<Rightarrow> TranscriptItem \<Rightarrow> element" where
  "itemContentSpan transcriptEntitySet item =
     Element
       ([''transcript-content'']
          @ (if lowConfidence item then [''confidence-style''] else [])
          @ (if isEntity transcriptEntitySet item then [''entity-color''] else []))
       (item_content item) []"

text \<open>
  The local variables of \<^verbatim>\<open>populatePartialTranscriptSegmentsFromResult\<close> and the
  segment array it pushes to. \<open>run_contentSpan\<close> starts as a fresh element standing
  for the unassigned variable: the source reads it only after a branch that assigned it.
\<close>

record builder =
  segments :: "TranscriptSegment list"
  run_startTimeMs :: "int option"
  run_attendee :: "Attendee option"
  run_contentSpan :: element

text \<open>\<^verbatim>\<open>!startTimeMs\<close>: true for \<^verbatim>\<open>null\<close> and for the number zero.\<close>

definition falsy :: "int option \<Rightarrow> bool" where
  "falsy t = (case t of None \<Rightarrow> True | Some n \<Rightarrow> n = 0)"

text \<open>Lines 3920 to 3962: the body of the loop over the items.\<close>

definition populateItem :: "bool \<Rightarrow> string set \<Rightarrow> builder \<Rightarrow> TranscriptItem \<Rightarrow> builder" where
  "populateItem noWordSeparator transcriptEntitySet b item =
     (let span = itemContentSpan transcriptEntitySet item in
      case run_startTimeMs b of
        None \<Rightarrow>
          b\<lparr>run_contentSpan := appendChild createElement span,
            run_attendee := Some (item_attendee item),
            run_startTimeMs := Some (item_startTimeMs item)\<rparr>
      | Some start \<Rightarrow>
          if start = 0 then
            b\<lparr>run_contentSpan := appendChild createElement span,
              run_attendee := Some (item_attendee item),
              run_startTimeMs := Some (item_startTimeMs item)\<rparr>
          else if item_type item = PUNCTUATION then
            b\<lparr>run_contentSpan := appendChild (run_contentSpan b) span,
              segments := segments b @
                [\<lparr>seg_contentSpan = appendChild (run_contentSpan b) span,
                  seg_attendee = run_attendee b,
                  seg_startTimeMs = start,
                  seg_endTimeMs = item_endTimeMs item\<rparr>],
              run_startTimeMs := None,
              run_attendee := None\<rparr>
          else if noWordSeparator then
            b\<lparr>run_contentSpan := appendChild (run_contentSpan b) span\<rparr>
          else
            b\<lparr>run_contentSpan :=
                appendChild (appendChild (run_contentSpan b) createSpaceSpan) span\<rparr>)"

text \<open>Lines 3964 to 3972: a run still open at the end of the items is closed.\<close>

definition closeRun :: "int \<Rightarrow> builder \<Rightarrow> TranscriptSegment list" where
  "closeRun resultEndTimeMs b =
     (case run_startTimeMs b of
        None \<Rightarrow> segments b
      | Some start \<Rightarrow>
          if start = 0 then segments b
          else segments b @
            [\<lparr>seg_contentSpan = run_contentSpan b,
              seg_attendee = run_attendee b,
              seg_startTimeMs = start,
              seg_endTimeMs = resultEndTimeMs\<rparr>])"

definition newBuilder :: "TranscriptSegment list \<Rightarrow> builder" where
  "newBuilder segs =
     \<lparr>segments = segs, run_startTimeMs = None, run_attendee = None,
      run_contentSpan = createElement\<rparr>"

text \<open>
  Lines 3913 to 3973. Reading \<^verbatim>\<open>result.alternatives[0].items\<close> throws a
  \<^verbatim>\<open>TypeError\<close> when the array of alternatives is empty.
\<close>

definition populatePartialTranscriptSegmentsFromResult ::
  "bool \<Rightarrow> string set \<Rightarrow> TranscriptSegment list \<Rightarrow> TranscriptResult
     \<Rightarrow> error + TranscriptSegment list" where
  "populatePartialTranscriptSegmentsFromResult noWordSeparator transcriptEntitySet segs result =
     (case alternatives result of
        [] \<Rightarrow> Inl TypeError
      | alternative # _ \<Rightarrow>
          Inr (closeRun (endTimeMs result)
                 (foldl (populateItem noWordSeparator transcriptEntitySet)
                    (newBuilder segs) (items alternative))))"

subsection \<open>JavaScript maps: association lists in insertion order\<close>

text \<open>\<^verbatim>\<open>Map.set\<close>: an existing key keeps its position, a new key goes to the end.\<close>

fun jsmap_set :: "'k \<Rightarrow> 'v \<Rightarrow> ('k \<times> 'v) list \<Rightarrow> ('k \<times> 'v) list" where
  "jsmap_set k v [] = [(k, v)]"
| "jsmap_set k v ((k', v') # m) =
     (if k' = k then (k, v) # m else (k', v') # jsmap_set k v m)"

definition jsmap_delete :: "'k \<Rightarrow> ('k \<times> 'v) list \<Rightarrow> ('k \<times> 'v) list" where
  "jsmap_delete k m = filter (\<lambda>kv. fst kv \<noteq> k) m"

definition jsmap_has :: "('k \<times> 'v) list \<Rightarrow> 'k \<Rightarrow> bool" where
  "jsmap_has m k = (k \<in> set (map fst m))"

definition jsmap_get :: "('k \<times> 'v) list \<Rightarrow> 'k \<Rightarrow> 'v option" where
  "jsmap_get m k = map_of m k"

definition jsmap_keys :: "('k \<times> 'v) list \<Rightarrow> 'k list" where
  "jsmap_keys m = map fst m"

definition jsmap_values :: "('k \<times> 'v) list \<Rightarrow> 'v list" where
  "jsmap_values m = map snd m"

subsection \<open>Renderer\<close>

text \<open>
  \<^verbatim>\<open>String.split\<close> on a one-character separator: the pieces between the
  separators, empty pieces included; never the empty list.
\<close>

fun split :: "char \<Rightarrow> string \<Rightarrow> string list" where
  "split sep [] = [[]]"
| "split sep (c # cs) =
     (if c = sep then [] # split sep cs
      else (case split sep cs of [] \<Rightarrow> [[c]] | w # ws \<Rightarrow> (c # w) # ws))"

text \<open>
  A speaker block: the \<^verbatim>\<open>div.transcript\<close> of
  \<^verbatim>\<open>appendNewSpeakerTranscriptDiv\<close> with its two children, the speaker label and the
  content span of the segment that opened it.
\<close>

record speakerTranscriptDiv =
  speakerSpan :: element
  contentSpan :: element

text \<open>
  The state of the loop of \<^verbatim>\<open>updatePartialTranscriptDiv\<close>: the children of
  \<^verbatim>\<open>partialTranscriptDiv\<close> and \<^verbatim>\<open>speakerToTranscriptSpanMap\<close>. The map holds
  references to content spans that are also children of a speaker block; a reference is
  the position of its block among the children.
\<close>

record rendering =
  blocks :: "speakerTranscriptDiv list"
  speakerToTranscriptSpanMap :: "(string \<times> nat) list"

text \<open>Lines 3982 to 3999.\<close>

definition appendNewSpeakerTranscriptDiv ::
  "TranscriptSegment \<Rightarrow> Attendee \<Rightarrow> rendering \<Rightarrow> rendering" where
  "appendNewSpeakerTranscriptDiv segment speaker r =
     \<lparr>blocks = blocks r @
        [\<lparr>speakerSpan =
            Element [''transcript-speaker'']
              (last (split (CHR ''#'') (externalUserId speaker)) @ '': '') [],
          contentSpan = seg_contentSpan segment\<rparr>],
      speakerToTranscriptSpanMap =
        jsmap_set (attendeeId speaker) (length (blocks r)) (speakerToTranscriptSpanMap r)\<rparr>"

text \<open>
  \<^verbatim>\<open>partialResultSpeakers.indexOf(newSpeakerId) < partialResultSpeakers.length - 1\<close>
  for a key of the map: the key is not the last one.
\<close>

definition notLatestSpeaker :: "(string \<times> nat) list \<Rightarrow> string \<Rightarrow> bool" where
  "notLatestSpeaker m newSpeakerId =
     (int (length (takeWhile (\<lambda>k. k \<noteq> newSpeakerId) (jsmap_keys m)))
        < int (length (jsmap_keys m)) - 1)"

text \<open>
  Lines 3894 to 3910, the body of the loop over the sorted segments. Reading
  \<^verbatim>\<open>segment.attendee.attendeeId\<close> throws when the attendee is \<^verbatim>\<open>null\<close>.
\<close>

definition renderSegment :: "rendering \<Rightarrow> TranscriptSegment \<Rightarrow> error + rendering" where
  "renderSegment r segment =
     (case seg_attendee segment of
        None \<Rightarrow> Inl TypeError
      | Some speaker \<Rightarrow>
          let newSpeakerId = attendeeId speaker in
          if \<not> jsmap_has (speakerToTranscriptSpanMap r) newSpeakerId then
            Inr (appendNewSpeakerTranscriptDiv segment speaker r)
          else if notLatestSpeaker (speakerToTranscriptSpanMap r) newSpeakerId then
            Inr (appendNewSpeakerTranscriptDiv segment speaker
                   (r\<lparr>speakerToTranscriptSpanMap :=
                        jsmap_delete newSpeakerId (speakerToTranscriptSpanMap r)\<rparr>))
          else
            (case jsmap_get (speakerToTranscriptSpanMap r) newSpeakerId of
               None \<Rightarrow> Inl TypeError
             | Some i \<Rightarrow>
                 Inr (r\<lparr>blocks := (blocks r)
                        [i := (blocks r ! i)\<lparr>contentSpan :=
                           appendChild
                             (appendChild (contentSpan (blocks r ! i)) createSpaceSpan)
                             (seg_contentSpan segment)\<rparr>]\<rparr>)))"

text \<open>The loop: it stops at the first throw and keeps what was rendered until then.\<close>

fun renderSegments :: "rendering \<Rightarrow> TranscriptSegment list \<Rightarrow> error option \<times> rendering" where
  "renderSegments r [] = (None, r)"
| "renderSegments r (segment # rest) =
     (case renderSegment r segment of
        Inl e \<Rightarrow> (Some e, r)
      | Inr r' \<Rightarrow> renderSegments r' rest)"

text \<open>Lines 3887 to 3890: the segments of every result of the map, in the map's order.\<close>

fun collectSegments ::
  "bool \<Rightarrow> string set \<Rightarrow> TranscriptSegment list \<Rightarrow> TranscriptResult list
     \<Rightarrow> error + TranscriptSegment list" where
  "collectSegments noWordSeparator transcriptEntitySet segs [] = Inr segs"
| "collectSegments noWordSeparator transcriptEntitySet segs (result # rest) =
     (case populatePartialTranscriptSegmentsFromResult noWordSeparator transcriptEntitySet
             segs result of
        Inl e \<Rightarrow> Inl e
      | Inr segs' \<Rightarrow> collectSegments noWordSeparator transcriptEntitySet segs' rest)"

text \<open>
  Lines 3887 to 3891: the sorted array \<^verbatim>\<open>partialTranscriptSegments\<close>. The sort of
  the source is stable, as \<open>sort_key\<close> is, and the comparator's rounded difference has
  the sign of the exact one (\<open>jsMinus_sign\<close>).
\<close>

definition partialTranscriptSegments ::
  "bool \<Rightarrow> string set \<Rightarrow> (string \<times> TranscriptResult) list
     \<Rightarrow> error + TranscriptSegment list" where
  "partialTranscriptSegments noWordSeparator transcriptEntitySet resultMap =
     (case collectSegments noWordSeparator transcriptEntitySet [] (jsmap_values resultMap) of
        Inl e \<Rightarrow> Inl e
      | Inr segs \<Rightarrow> Inr (sort_key seg_startTimeMs segs))"

subsection \<open>Transcript events and the state of the handler\<close>

datatype TranscriptionStatusType = STARTED | INTERRUPTED | RESUMED | STOPPED | FAILED

record TranscribeSettings =
  settings_LanguageCode :: "string option"
  settings_languageCode :: "string option"

text \<open>
  What \<^verbatim>\<open>JSON.parse(transcriptEvent.transcriptionConfiguration)\<close> gives: a throw
  on malformed text, a falsy value, or an object with its two optional engine settings.
\<close>

datatype parsedConfiguration =
    ParseThrows
  | ParsedFalsy
  | ParsedObject (EngineTranscribeSettings: "TranscribeSettings option")
      (EngineTranscribeMedicalSettings: "TranscribeSettings option")

text \<open>The other fields of a status only feed the text of the status line.\<close>

record TranscriptionStatus =
  status_type :: TranscriptionStatusType
  transcriptionConfiguration :: parsedConfiguration

datatype TranscriptEvent = Status TranscriptionStatus | Transcript "TranscriptResult list"

datatype containerChild = StatusDiv TranscriptionStatus | PartialTranscriptDiv nat

text \<open>
  The instance fields the handler reads and writes. \<open>divs\<close> is the store of the
  elements created for \<^verbatim>\<open>partialTranscriptDiv\<close>, each given by its children;
  \<open>partialTranscriptDiv\<close> and the children of \<^verbatim>\<open>transcriptContainerDiv\<close> refer to
  them by position. The button and visibility updates of the user interface are left out.
\<close>

record state =
  enableLiveTranscription :: bool
  noWordSeparatorForTranscription :: bool
  partialTranscriptResultTimeMap :: "(string \<times> int) list"
  partialTranscriptResultMap :: "(string \<times> TranscriptResult) list"
  transcriptEntitySet :: "string set"
  partialTranscriptDiv :: "nat option"
  divs :: "speakerTranscriptDiv list list"
  transcriptContainerDiv :: "containerChild list"

text \<open>The field initialisers (lines 604 to 607) after the reset of lines 1761 and 1762.\<close>

definition initialState :: state where
  "initialState =
     \<lparr>enableLiveTranscription = False,
      noWordSeparatorForTranscription = False,
      partialTranscriptResultTimeMap = [],
      partialTranscriptResultMap = [],
      transcriptEntitySet = {},
      partialTranscriptDiv = None,
      divs = [],
      transcriptContainerDiv = []\<rparr>"

definition LANGUAGES_NO_WORD_SEPARATOR :: "string set" where
  "LANGUAGES_NO_WORD_SEPARATOR = {''ja-JP'', ''zh-CN''}"

text \<open>\<^verbatim>\<open>languageCode && LANGUAGES_NO_WORD_SEPARATOR.has(languageCode)\<close>\<close>

definition noSeparatorLanguage :: "string option \<Rightarrow> bool" where
  "noSeparatorLanguage code =
     (case code of
        None \<Rightarrow> False
      | Some l \<Rightarrow> l \<noteq> [] \<and> l \<in> LANGUAGES_NO_WORD_SEPARATOR)"

subsection \<open>Rendering the tracked results\<close>

text \<open>
  Lines 3884 to 3911. The element is emptied first; a throw while the segments are
  collected leaves it empty, a throw in the loop leaves the blocks appended until then.
\<close>

definition updatePartialTranscriptDiv :: "state \<Rightarrow> error option \<times> state" where
  "updatePartialTranscriptDiv s =
     (case partialTranscriptDiv s of
        None \<Rightarrow> (Some TypeError, s)
      | Some d \<Rightarrow>
          (case partialTranscriptSegments (noWordSeparatorForTranscription s)
                  (transcriptEntitySet s) (partialTranscriptResultMap s) of
             Inl e \<Rightarrow> (Some e, s\<lparr>divs := (divs s)[d := []]\<rparr>)
           | Inr segs \<Rightarrow>
               (case renderSegments \<lparr>blocks = [], speakerToTranscriptSpanMap = []\<rparr> segs of
                  (e, r) \<Rightarrow> (e, s\<lparr>divs := (divs s)[d := blocks r]\<rparr>))))"

text \<open>Lines 3872 to 3882.\<close>

definition renderPartialTranscriptResults :: "state \<Rightarrow> error option \<times> state" where
  "renderPartialTranscriptResults s =
     (case partialTranscriptDiv s of
        Some d \<Rightarrow> updatePartialTranscriptDiv s
      | None \<Rightarrow>
          (let d = length (divs s) in
           case updatePartialTranscriptDiv
                  (s\<lparr>divs := divs s @ [[]], partialTranscriptDiv := Some d\<rparr>) of
             (Some e, s') \<Rightarrow> (Some e, s')
           | (None, s') \<Rightarrow>
               (None, s'\<lparr>transcriptContainerDiv :=
                            transcriptContainerDiv s' @ [PartialTranscriptDiv d]\<rparr>)))"

subsection \<open>The handler\<close>

text \<open>Lines 3830 to 3840: the entity tokens of a finalized result.\<close>

definition addEntities :: "TranscriptResult \<Rightarrow> state \<Rightarrow> error + state" where
  "addEntities result s =
     (if isPartial result then Inr s
      else
        (case alternatives result of
           [] \<Rightarrow> Inl TypeError
         | alternative # _ \<Rightarrow>
             (case entities alternative of
                None \<Rightarrow> Inr s
              | Some es \<Rightarrow>
                  if length es > 0 then
                    Inr (s\<lparr>transcriptEntitySet :=
                           foldl (\<lambda>S entity.
                                    foldl (\<lambda>S' c. insert c S') S
                                      (split (CHR '' '') (entity_content entity)))
                             (transcriptEntitySet s) es\<rparr>)
                  else Inr s)))"

text \<open>
  Lines 3850 to 3856: the loop over the entries of the time map in insertion order. It
  deletes the entry it stands on and ends at the key of the finalized result. The
  threshold \<^verbatim>\<open>result.endTimeMs - 5000\<close> is a difference of doubles.
\<close>

fun evictOlder :: "string \<Rightarrow> int \<Rightarrow> (string \<times> int) list \<Rightarrow> (string \<times> int) list" where
  "evictOlder rid resultEndTimeMs [] = []"
| "evictOlder rid resultEndTimeMs ((olderResultId, t) # m) =
     (if olderResultId = rid then (olderResultId, t) # m
      else if t < jsMinus resultEndTimeMs 5000 then evictOlder rid resultEndTimeMs m
      else (olderResultId, t) # evictOlder rid resultEndTimeMs m)"

text \<open>Lines 3848 to 3865: what follows the rendering of a finalized result.\<close>

definition finalizeResult :: "TranscriptResult \<Rightarrow> state \<Rightarrow> state" where
  "finalizeResult result s =
     (let timeMap = jsmap_delete (resultId result)
                      (evictOlder (resultId result) (endTimeMs result)
                         (partialTranscriptResultTimeMap s));
          s' = s\<lparr>partialTranscriptResultTimeMap := timeMap, transcriptEntitySet := {}\<rparr>
      in if length timeMap = 0
         then s'\<lparr>partialTranscriptDiv := None, partialTranscriptResultMap := []\<rparr>
         else s')"

text \<open>Lines 3841 and 3842.\<close>

definition upsert :: "TranscriptResult \<Rightarrow> state \<Rightarrow> state" where
  "upsert result s =
     s\<lparr>partialTranscriptResultMap :=
         jsmap_set (resultId result) result (partialTranscriptResultMap s),
       partialTranscriptResultTimeMap :=
         jsmap_set (resultId result) (endTimeMs result) (partialTranscriptResultTimeMap s)\<rparr>"

text \<open>Lines 3824 to 3865: the body of the loop over the results of a transcript.\<close>

definition processResult :: "TranscriptResult \<Rightarrow> state \<Rightarrow> error option \<times> state" where
  "processResult result s =
     (let s1 = (if noSeparatorLanguage (languageCode result)
                then s\<lparr>noWordSeparatorForTranscription := True\<rparr> else s) in
      case addEntities result s1 of
        Inl e \<Rightarrow> (Some e, s1)
      | Inr s2 \<Rightarrow>
          (case renderPartialTranscriptResults (upsert result s2) of
             (Some e, s3) \<Rightarrow> (Some e, s3)
           | (None, s3) \<Rightarrow>
               if isPartial result then (None, s3)
               else (None, finalizeResult result s3)))"

fun processResults :: "TranscriptResult list \<Rightarrow> state \<Rightarrow> error option \<times> state" where
  "processResults [] s = (None, s)"
| "processResults (result # rest) s =
     (case processResult result s of
        (Some e, s') \<Rightarrow> (Some e, s')
      | (None, s') \<Rightarrow> processResults rest s')"

text \<open>Lines 3792 to 3805: the language code of a STARTED status.\<close>

definition startedLanguageCode :: "parsedConfiguration \<Rightarrow> error + string option" where
  "startedLanguageCode c =
     (case c of
        ParseThrows \<Rightarrow> Inl SyntaxError
      | ParsedFalsy \<Rightarrow> Inr None
      | ParsedObject standard medical \<Rightarrow>
          (case standard of
             Some settings \<Rightarrow> Inr (settings_LanguageCode settings)
           | None \<Rightarrow>
               (case medical of
                  Some settings \<Rightarrow> Inr (settings_languageCode settings)
                | None \<Rightarrow> Inr None)))"

text \<open>Lines 3789 to 3821: a status event, after its status line is appended.\<close>

definition processStatus :: "TranscriptionStatus \<Rightarrow> state \<Rightarrow> error option \<times> state" where
  "processStatus status s =
     (let s1 = s\<lparr>transcriptContainerDiv := transcriptContainerDiv s @ [StatusDiv status]\<rparr> in
      if status_type status = STARTED then
        (case startedLanguageCode (transcriptionConfiguration status) of
           Inl e \<Rightarrow> (Some e, s1)
         | Inr code \<Rightarrow>
             if noSeparatorLanguage code
             then (None, s1\<lparr>noWordSeparatorForTranscription := True\<rparr>)
             else (None, s1))
      else if (status_type status = STOPPED \<or> status_type status = FAILED)
              \<and> enableLiveTranscription s1 then
        (None, s1\<lparr>enableLiveTranscription := False,
                  noWordSeparatorForTranscription := False,
                  partialTranscriptResultTimeMap := [],
                  partialTranscriptDiv := None,
                  partialTranscriptResultMap := []\<rparr>)
      else (None, s1))"

text \<open>Lines 3777 to 3870.\<close>

definition transcriptEventHandler :: "TranscriptEvent \<Rightarrow> state \<Rightarrow> error option \<times> state" where
  "transcriptEventHandler transcriptEvent s =
     (let s0 = (if \<not> enableLiveTranscription s
                then s\<lparr>enableLiveTranscription := True\<rparr> else s) in
      case transcriptEvent of
        Status status \<Rightarrow> processStatus status s0
      | Transcript results \<Rightarrow> processResults results s0)"

text \<open>
  A sequence of events, each handled from the state the previous one left, thrown or not.
\<close>

definition handleEvents :: "TranscriptEvent list \<Rightarrow> state \<Rightarrow> state" where
  "handleEvents events s = foldl (\<lambda>s' e. snd (transcriptEventHandler e s')) s events"

subsection \<open>Derived notions and example data\<close>

text \<open>The run is open when \<^verbatim>\<open>startTimeMs\<close> is truthy.\<close>

definition runOpen :: "builder \<Rightarrow> bool" where
  "runOpen b = (\<not> falsy (run_startTimeMs b))"

text \<open>The scenario result of the specification, with the start time as a parameter.\<close>

definition helloResult :: "Attendee \<Rightarrow> int \<Rightarrow> TranscriptResult" where
  "helloResult X start =
     \<lparr>resultId = ''r1'', isPartial = True, languageCode = None,
      alternatives =
        [\<lparr>items =
            [\<lparr>item_content = ''hello'', item_type = PRONUNCIATION,
              item_startTimeMs = start, item_endTimeMs = 500,
              item_attendee = X, item_confidence = None\<rparr>],
          entities = None\<rparr>],
      endTimeMs = 500\<rparr>"

definition alice :: Attendee where
  "alice = \<lparr>attendeeId = ''a1'', externalUserId = ''tenant#Alice''\<rparr>"

definition bob :: Attendee where
  "bob = \<lparr>attendeeId = ''b2'', externalUserId = ''tenant#Bob''\<rparr>"

definition word :: "string \<Rightarrow> int \<Rightarrow> int \<Rightarrow> Attendee \<Rightarrow> TranscriptItem" where
  "word c start finish speaker =
     \<lparr>item_content = c, item_type = PRONUNCIATION, item_startTimeMs = start,
      item_endTimeMs = finish, item_attendee = speaker, item_confidence = None\<rparr>"

definition punctuation :: "string \<Rightarrow> int \<Rightarrow> int \<Rightarrow> Attendee \<Rightarrow> TranscriptItem" where
  "punctuation c start finish speaker =
     \<lparr>item_content = c, item_type = PUNCTUATION, item_startTimeMs = start,
      item_endTimeMs = finish, item_attendee = speaker, item_confidence = None\<rparr>"

definition mkResult :: "string \<Rightarrow> bool \<Rightarrow> TranscriptItem list \<Rightarrow> int \<Rightarrow> TranscriptResult" where
  "mkResult rid partial its finish =
     \<lparr>resultId = rid, isPartial = partial, languageCode = None,
      alternatives = [\<lparr>items = its, entities = None\<rparr>], endTimeMs = finish\<rparr>"

text \<open>
  The invariant of the loop over the segments: the keys of the span map are distinct and
  every reference points to an existing speaker block.
\<close>

definition renderingOk :: "rendering \<Rightarrow> bool" where
  "renderingOk r =
     (distinct (jsmap_keys (speakerToTranscriptSpanMap r))
      \<and> (\<forall>ki \<in> set (speakerToTranscriptSpanMap r). snd ki < length (blocks r)))"

text \<open>The attendee whose span was opened last: the last key of the span map.\<close>

definition latestSpeaker :: "rendering \<Rightarrow> string option" where
  "latestSpeaker r =
     (case jsmap_keys (speakerToTranscriptSpanMap r) of
        [] \<Rightarrow> None
      | k # ks \<Rightarrow> Some (last (k # ks)))"

text \<open>Example segments, and the rendering after Alice and then Bob have spoken.\<close>

definition exampleSegment :: "Attendee \<Rightarrow> string \<Rightarrow> int \<Rightarrow> int \<Rightarrow> TranscriptSegment" where
  "exampleSegment speaker c start finish =
     \<lparr>seg_contentSpan = Element [] [] [Element [''transcript-content''] c []],
      seg_attendee = Some speaker, seg_startTimeMs = start, seg_endTimeMs = finish\<rparr>"

definition aliceThenBob :: rendering where
  "aliceThenBob =
     snd (renderSegments \<lparr>blocks = [], speakerToTranscriptSpanMap = []\<rparr>
            [exampleSegment alice ''hi'' 100 200, exampleSegment bob ''yes'' 200 300])"

text \<open>Where a segment was rendered: it opened block \<open>i\<close> or is the last child of its span.\<close>

definition renderedIn :: "rendering \<Rightarrow> nat \<Rightarrow> TranscriptSegment \<Rightarrow> bool" where
  "renderedIn r i seg =
     (i < length (blocks r)
      \<and> (contentSpan (blocks r ! i) = seg_contentSpan seg
          \<or> (childNodes (contentSpan (blocks r ! i)) \<noteq> []
              \<and> last (childNodes (contentSpan (blocks r ! i))) = seg_contentSpan seg)))"

text \<open>
  Whether a key was inserted into the time map before the key of the finalized result:
  the eviction loop only reaches those keys.
\<close>

definition insertedBefore :: "(string \<times> int) list \<Rightarrow> string \<Rightarrow> string \<Rightarrow> bool" where
  "insertedBefore m k rid = (k \<in> set (takeWhile (\<lambda>x. x \<noteq> rid) (jsmap_keys m)))"

text \<open>
  The invariant of the two maps and the entity set between calls of the handler: the
  tracked keys are distinct, every tracked key refers to a partial result of the result
  map with the same end time, the result map is empty when no key is tracked, and the
  entity set is empty.
\<close>

definition storeInv :: "state \<Rightarrow> bool" where
  "storeInv s =
     (distinct (jsmap_keys (partialTranscriptResultTimeMap s))
      \<and> (\<forall>k t. jsmap_get (partialTranscriptResultTimeMap s) k = Some t \<longrightarrow>
            (\<exists>r. jsmap_get (partialTranscriptResultMap s) k = Some r
                  \<and> isPartial r \<and> endTimeMs r = t \<and> resultId r = k))
      \<and> (partialTranscriptResultTimeMap s = [] \<longrightarrow> partialTranscriptResultMap s = [])
      \<and> transcriptEntitySet s = {})"

text \<open>No call of the handler throws along the sequence of events.\<close>

fun noThrow :: "TranscriptEvent list \<Rightarrow> state \<Rightarrow> bool" where
  "noThrow [] s = True"
| "noThrow (e # es) s =
     (case transcriptEventHandler e s of
        (None, s') \<Rightarrow> noThrow es s'
      | (Some err, s') \<Rightarrow> False)"

text \<open>Example results: two partial ones and the finalized update of the first.\<close>

definition r1Partial :: TranscriptResult where
  "r1Partial = mkResult ''r1'' True [word ''hello'' 100 500 alice] 500"

definition kPartial :: TranscriptResult where
  "kPartial = mkResult ''k'' True [word ''old'' 50 90 bob] 90"

definition r1Final :: TranscriptResult where
  "r1Final = mkResult ''r1'' False
               [word ''hello'' 100 500 alice, punctuation ''.'' 500 10000 alice] 10000"

definition r2Final :: TranscriptResult where
  "r2Final = mkResult ''r2'' False
               [word ''bye'' 600 900 bob, punctuation ''.'' 900 1000 bob] 1000"

text \<open>A result without any alternative, and a finalized result with one entity.\<close>

definition badPartial :: TranscriptResult where
  "badPartial =
     \<lparr>resultId = ''bad'', isPartial = True, languageCode = None, alternatives = [],
      endTimeMs = 100\<rparr>"

definition johnFinal :: TranscriptResult where
  "johnFinal =
     \<lparr>resultId = ''r2'', isPartial = False, languageCode = None,
      alternatives =
        [\<lparr>items = [word ''John'' 100 500 alice],
          entities = Some [\<lparr>entity_content = ''John''\<rparr>]\<rparr>],
      endTimeMs = 500\<rparr>"

definition stopped :: TranscriptionStatus where
  "stopped = \<lparr>status_type = STOPPED, transcriptionConfiguration = ParsedFalsy\<rparr>"

text \<open>Every segment has an attendee, and so has the open run.\<close>

definition attendeeInv :: "builder \<Rightarrow> bool" where
  "attendeeInv b =
     ((\<forall>seg \<in> set (segments b). seg_attendee seg \<noteq> None)
      \<and> (runOpen b \<longrightarrow> run_attendee b \<noteq> None))"

text \<open>The results the renderer walks after the upsert of a result.\<close>

definition resultsAfterUpsert :: "TranscriptResult \<Rightarrow> state \<Rightarrow> TranscriptResult list" where
  "resultsAfterUpsert result s =
     jsmap_values (jsmap_set (resultId result) result (partialTranscriptResultMap s))"

text \<open>A partial result whose best alternative has no item.\<close>

definition emptyItems :: TranscriptResult where
  "emptyItems = mkResult ''e'' True [] 100"

text \<open>
  The builder as section 4.3 of the specification words it, for comparison with the
  source: a run is either open or not, whatever its start time. The first item after a
  closed run opens a run with its own start time and attendee; a punctuation joins the
  open run without a separator and closes it at its own end time; any other item joins
  it after one space span unless the no-separator flag is set; a run still open after
  the last item is closed at the end time of the result.
\<close>

record specRun =
  spec_startTimeMs :: int
  spec_attendee :: Attendee
  spec_children :: "element list"

definition specSegment :: "specRun \<Rightarrow> int \<Rightarrow> TranscriptSegment" where
  "specSegment run finish =
     \<lparr>seg_contentSpan = Element [] [] (spec_children run),
      seg_attendee = Some (spec_attendee run),
      seg_startTimeMs = spec_startTimeMs run,
      seg_endTimeMs = finish\<rparr>"

fun specBuild ::
  "bool \<Rightarrow> string set \<Rightarrow> int \<Rightarrow> specRun option \<Rightarrow> TranscriptItem list
     \<Rightarrow> TranscriptSegment list" where
  "specBuild noSep ents resultEnd None [] = []"
| "specBuild noSep ents resultEnd (Some run) [] = [specSegment run resultEnd]"
| "specBuild noSep ents resultEnd None (item # rest) =
     specBuild noSep ents resultEnd
       (Some \<lparr>spec_startTimeMs = item_startTimeMs item,
              spec_attendee = item_attendee item,
              spec_children = [itemContentSpan ents item]\<rparr>) rest"
| "specBuild noSep ents resultEnd (Some run) (item # rest) =
     (if item_type item = PUNCTUATION then
        specSegment (run\<lparr>spec_children := spec_children run @ [itemContentSpan ents item]\<rparr>)
          (item_endTimeMs item)
        # specBuild noSep ents resultEnd None rest
      else
        specBuild noSep ents resultEnd
          (Some (run\<lparr>spec_children :=
                       spec_children run
                         @ (if noSep then [] else [createSpaceSpan])
                         @ [itemContentSpan ents item]\<rparr>)) rest)"

definition specSegments :: "bool \<Rightarrow> string set \<Rightarrow> TranscriptResult \<Rightarrow> TranscriptSegment list" where
  "specSegments noSep ents result =
     (case alternatives result of
        [] \<Rightarrow> []
      | alternative # _ \<Rightarrow>
          specBuild noSep ents (endTimeMs result) None (items alternative))"

text \<open>The run variables of the source agree with a run of the specification.\<close>

definition sameRun :: "builder \<Rightarrow> specRun option \<Rightarrow> bool" where
  "sameRun b r =
     (case r of
        None \<Rightarrow> run_startTimeMs b = None
      | Some run \<Rightarrow>
          run_startTimeMs b = Some (spec_startTimeMs run)
          \<and> spec_startTimeMs run \<noteq> 0
          \<and> run_attendee b = Some (spec_attendee run)
          \<and> run_contentSpan b = Element [] [] (spec_children run))"

text \<open>
  The scenario of the specification for a finalized r1: the word and a full stop, with
  the start time of the word as a parameter; and two words without punctuation.
\<close>

definition helloStop :: "Attendee \<Rightarrow> int \<Rightarrow> TranscriptResult" where
  "helloStop X start =
     \<lparr>resultId = ''r1'', isPartial = False, languageCode = None,
      alternatives =
        [\<lparr>items = [word ''hello'' start 500 X, punctuation ''.'' 500 600 X],
          entities = None\<rparr>],
      endTimeMs = 600\<rparr>"

definition goodDay :: "int \<Rightarrow> TranscriptResult" where
  "goodDay start =
     mkResult ''r1'' True [word ''good'' start 200 alice, word ''day'' 200 300 alice] 300"

text \<open>
  The no-separator flag is set whenever a result of the result map has a language
  without word separators.
\<close>

definition flagCoversResults :: "state \<Rightarrow> bool" where
  "flagCoversResults s =
     (\<forall>r \<in> set (jsmap_values (partialTranscriptResultMap s)).
        noSeparatorLanguage (languageCode r) \<longrightarrow> noWordSeparatorForTranscription s)"

section \<open>Differences of time stamps\<close>

lemma ulp_small: "m < 9007199254740992 \<Longrightarrow> ulp m = 1"
  by (subst ulp.simps) simp

lemma ulp_large: "\<not> m < 9007199254740992 \<Longrightarrow> ulp m = 2 * ulp (m div 2)"
  by (subst ulp.simps) simp

lemma ulp_pos: "0 < ulp m"
proof (induction m rule: ulp.induct)
  case (1 m)
  then show ?case by (cases "m < 9007199254740992") (simp_all add: ulp_small ulp_large)
qed

lemma ulp_le: "0 < m \<Longrightarrow> ulp m \<le> m"
proof (induction m rule: ulp.induct)
  case (1 m)
  show ?case
  proof (cases "m < 9007199254740992")
    case True
    then show ?thesis using "1.prems" by (simp add: ulp_small)
  next
    case False
    then have "0 < m div 2" by simp
    from "1.IH" [OF False this] have "2 * ulp (m div 2) \<le> 2 * (m div 2)" by simp
    also have "\<dots> \<le> m" by simp
    finally show ?thesis using False by (simp add: ulp_large)
  qed
qed

lemma roundToDouble_exact: "m \<le> 9007199254740992 \<Longrightarrow> roundToDouble m = m"
proof (cases "m = 9007199254740992")
  case True
  have "ulp 9007199254740992 = 2" by (simp add: ulp_large ulp_small)
  then show ?thesis using True by (simp add: roundToDouble_def Let_def)
next
  case False
  assume "m \<le> 9007199254740992"
  with False have "m < 9007199254740992" by simp
  then show ?thesis by (simp add: roundToDouble_def ulp_small)
qed

lemma roundToDouble_pos: "0 < m \<Longrightarrow> 0 < roundToDouble m"
proof -
  assume m: "0 < m"
  have u: "0 < ulp m" "ulp m \<le> m" using ulp_pos ulp_le [OF m] by auto
  then have "0 < m div ulp m" by (simp add: div_greater_zero_iff)
  then show ?thesis using u(1) by (simp add: roundToDouble_def Let_def)
qed

text \<open>Up to \<open>2^53\<close> the difference is exact.\<close>

lemma jsMinus_exact: "\<bar>a - b\<bar> \<le> 9007199254740992 \<Longrightarrow> jsMinus a b = a - b"
proof -
  assume h: "\<bar>a - b\<bar> \<le> 9007199254740992"
  then have "nat \<bar>a - b\<bar> \<le> 9007199254740992" by (simp add: nat_le_iff)
  then have "roundToDouble (nat \<bar>a - b\<bar>) = nat \<bar>a - b\<bar>" by (rule roundToDouble_exact)
  then show ?thesis by (simp add: jsMinus_def doubleOfInt_def sgn_if)
qed

text \<open>The rounded difference has the sign of the exact one, as a sort comparator needs.\<close>

lemma jsMinus_sign: "sgn (jsMinus a b) = sgn (a - b)"
proof (cases "a = b")
  case True
  then show ?thesis by (simp add: jsMinus_def doubleOfInt_def)
next
  case False
  then have "0 < nat \<bar>a - b\<bar>" by simp
  then have "0 < int (roundToDouble (nat \<bar>a - b\<bar>))" using roundToDouble_pos by simp
  then show ?thesis by (simp add: jsMinus_def doubleOfInt_def sgn_mult)
qed

text \<open>
  Beyond \<open>2^53\<close> the difference rounds: near \<open>2^56\<close> doubles are 16 apart, and
  \<open>72057594037943952 - 5000\<close> lies halfway between two of them.
\<close>

lemma jsMinus_rounds:
  "jsMinus 72057594037943952 5000 = 72057594037938944"
proof -
  have "ulp 72057594037938952 = 16" by (simp add: ulp_large ulp_small)
  then show ?thesis by (simp add: jsMinus_def doubleOfInt_def roundToDouble_def Let_def)
qed

section \<open>Segment builder: single items\<close>

lemma helloResult_positive_start:
  "populatePartialTranscriptSegmentsFromResult sep {} [] (helloResult X 1) =
     Inr [\<lparr>seg_contentSpan =
              Element [] [] [Element [''transcript-content''] ''hello'' []],
            seg_attendee = Some X, seg_startTimeMs = 1, seg_endTimeMs = 500\<rparr>]"
  by (simp add: populatePartialTranscriptSegmentsFromResult_def helloResult_def
      newBuilder_def populateItem_def closeRun_def itemContentSpan_def lowConfidence_def
      isEntity_def appendChild_def createElement_def)

text \<open>
  Claim C5. The specification expects one segment for the result r1 whose only item
  starts at time 0. The source tests \<^verbatim>\<open>if (startTimeMs)\<close> at the end of the items,
  which is false for the number 0, so the run opened by that item is never pushed: the
  result yields no segment at all.
\<close>

theorem C5_zero_start_yields_no_segment:
  "populatePartialTranscriptSegmentsFromResult sep ents [] (helloResult X 0) = Inr []"
  by (simp add: populatePartialTranscriptSegmentsFromResult_def helloResult_def
      newBuilder_def populateItem_def closeRun_def)


lemma threshold_itself_not_flagged:
  "\<not> lowConfidence (item\<lparr>item_confidence := Some confidenceThreshold\<rparr>)"
  by (simp add: lowConfidence_def)

text \<open>
  When the run variables say that a run is open and the item is a punctuation, the item's
  span is appended to the run directly (no separator), the run is pushed as a segment
  that ends at the item's end time, and the run variables are reset; whatever item comes
  next then opens a new run with its own start time and attendee and pushes nothing.
\<close>

lemma punctuation_closes_open_run:
  assumes "runOpen b" and "item_type item = PUNCTUATION"
  shows "\<exists>start. run_startTimeMs b = Some start
     \<and> populateItem sep ents b item =
         b\<lparr>run_contentSpan := appendChild (run_contentSpan b) (itemContentSpan ents item),
           segments := segments b @
             [\<lparr>seg_contentSpan = appendChild (run_contentSpan b) (itemContentSpan ents item),
               seg_attendee = run_attendee b,
               seg_startTimeMs = start,
               seg_endTimeMs = item_endTimeMs item\<rparr>],
           run_startTimeMs := None,
           run_attendee := None\<rparr>
     \<and> \<not> runOpen (populateItem sep ents b item)
     \<and> populateItem sep ents (populateItem sep ents b item) next =
         (populateItem sep ents b item)
          \<lparr>run_contentSpan := appendChild createElement (itemContentSpan ents next),
           run_attendee := Some (item_attendee next),
           run_startTimeMs := Some (item_startTimeMs next)\<rparr>"
proof -
  from assms(1) obtain start where s: "run_startTimeMs b = Some start" "start \<noteq> 0"
    by (auto simp: runOpen_def falsy_def split: option.splits)
  have step: "populateItem sep ents b item =
         b\<lparr>run_contentSpan := appendChild (run_contentSpan b) (itemContentSpan ents item),
           segments := segments b @
             [\<lparr>seg_contentSpan = appendChild (run_contentSpan b) (itemContentSpan ents item),
               seg_attendee = run_attendee b,
               seg_startTimeMs = start,
               seg_endTimeMs = item_endTimeMs item\<rparr>],
           run_startTimeMs := None,
           run_attendee := None\<rparr>"
    using s assms(2) by (simp add: populateItem_def Let_def)
  have closed: "run_startTimeMs (populateItem sep ents b item) = None"
    by (simp add: step)
  have "\<not> runOpen (populateItem sep ents b item)"
    by (simp add: runOpen_def falsy_def closed)
  moreover have "populateItem sep ents (populateItem sep ents b item) next =
         (populateItem sep ents b item)
          \<lparr>run_contentSpan := appendChild createElement (itemContentSpan ents next),
           run_attendee := Some (item_attendee next),
           run_startTimeMs := Some (item_startTimeMs next)\<rparr>"
    using closed by (simp add: populateItem_def [of sep ents "populateItem sep ents b item"] Let_def)
  ultimately show ?thesis using s(1) step by blast
qed

section \<open>The builder and the specification's wording\<close>

lemma sameRun_step:
  assumes "sameRun b r" and "item_startTimeMs item \<noteq> 0"
  shows "\<exists>r' new. sameRun (populateItem noSep ents b item) r'
           \<and> segments (populateItem noSep ents b item) = segments b @ new
           \<and> specBuild noSep ents e r (item # rest) = new @ specBuild noSep ents e r' rest"
proof (cases r)
  case None
  let ?r' = "Some \<lparr>spec_startTimeMs = item_startTimeMs item,
                    spec_attendee = item_attendee item,
                    spec_children = [itemContentSpan ents item]\<rparr>"
  from None assms have "sameRun (populateItem noSep ents b item) ?r'"
    "segments (populateItem noSep ents b item) = segments b @ []"
    "specBuild noSep ents e r (item # rest) = [] @ specBuild noSep ents e ?r' rest"
    by (simp_all add: sameRun_def populateItem_def Let_def appendChild_def createElement_def)
  then show ?thesis by blast
next
  case (Some run)
  with assms(1) have b: "run_startTimeMs b = Some (spec_startTimeMs run)"
    "spec_startTimeMs run \<noteq> 0" "run_attendee b = Some (spec_attendee run)"
    "run_contentSpan b = Element [] [] (spec_children run)"
    by (simp_all add: sameRun_def)
  show ?thesis
  proof (cases "item_type item = PUNCTUATION")
    case True
    let ?seg = "specSegment
        (run\<lparr>spec_children := spec_children run @ [itemContentSpan ents item]\<rparr>)
        (item_endTimeMs item)"
    from True b Some have "sameRun (populateItem noSep ents b item) None"
      "segments (populateItem noSep ents b item) = segments b @ [?seg]"
      "specBuild noSep ents e r (item # rest) = [?seg] @ specBuild noSep ents e None rest"
      by (simp_all add: sameRun_def populateItem_def Let_def appendChild_def specSegment_def)
    then show ?thesis by blast
  next
    case False
    let ?r' = "Some (run\<lparr>spec_children :=
                       spec_children run
                         @ (if noSep then [] else [createSpaceSpan])
                         @ [itemContentSpan ents item]\<rparr>)"
    from False b Some have "sameRun (populateItem noSep ents b item) ?r'"
      "segments (populateItem noSep ents b item) = segments b @ []"
      "specBuild noSep ents e r (item # rest) = [] @ specBuild noSep ents e ?r' rest"
      by (simp_all add: sameRun_def populateItem_def Let_def appendChild_def)
    then show ?thesis by blast
  qed
qed

lemma sameRun_foldl:
  assumes "sameRun b r" and "\<forall>item \<in> set its. item_startTimeMs item \<noteq> 0"
  shows "closeRun e (foldl (populateItem noSep ents) b its)
           = segments b @ specBuild noSep ents e r its"
  using assms
proof (induction its arbitrary: b r)
  case Nil
  then show ?case
    by (cases r) (simp_all add: sameRun_def closeRun_def specSegment_def)
next
  case (Cons item rest)
  from Cons.prems(2) have nz: "item_startTimeMs item \<noteq> 0" by simp
  from sameRun_step [OF Cons.prems(1) nz, of noSep ents e rest] obtain r' new where
    s: "sameRun (populateItem noSep ents b item) r'"
       "segments (populateItem noSep ents b item) = segments b @ new"
       "specBuild noSep ents e r (item # rest) = new @ specBuild noSep ents e r' rest"
    by blast
  have "closeRun e (foldl (populateItem noSep ents) (populateItem noSep ents b item) rest)
          = segments (populateItem noSep ents b item) @ specBuild noSep ents e r' rest"
    using Cons.IH [OF s(1)] Cons.prems(2) by simp
  then show ?case using s(2,3) by simp
qed

text \<open>
  When no item starts at time 0, the source builds exactly the segments of the
  specification's wording: the same runs, separators, start and end times.
\<close>

lemma builder_refines_specification:
  assumes "alternatives result = alternative # others"
    and "\<forall>item \<in> set (items alternative). item_startTimeMs item \<noteq> 0"
  shows "populatePartialTranscriptSegmentsFromResult noSep ents segs result
           = Inr (segs @ specSegments noSep ents result)"
proof -
  have "sameRun (newBuilder segs) None" by (simp add: sameRun_def newBuilder_def)
  from sameRun_foldl [OF this assms(2), of "endTimeMs result" noSep ents]
  show ?thesis
    using assms(1)
    by (simp add: populatePartialTranscriptSegmentsFromResult_def specSegments_def
        newBuilder_def)
qed

text \<open>
  Claim C7. With two words of one speaker and the flag unset, the specification's wording
  gives one segment from time 0 whose content is the first word, one space span and the
  second word (without the space span when the flag is set). The source tests
  \<^verbatim>\<open>!startTimeMs\<close> to see whether a run is open, which is true for the run that the
  first word opened at time 0: the second word opens another run, the first word is
  lost, and the only segment is the second word alone, with no space span before it.
\<close>

theorem C7_zero_start_loses_the_run:
  "populatePartialTranscriptSegmentsFromResult noSep {} [] (goodDay 0) =
     Inr [\<lparr>seg_contentSpan = Element [] [] [Element [''transcript-content''] ''day'' []],
           seg_attendee = Some alice, seg_startTimeMs = 200, seg_endTimeMs = 300\<rparr>]
   \<and> specSegments noSep {} (goodDay 0) =
       [\<lparr>seg_contentSpan = Element [] []
            ([Element [''transcript-content''] ''good'' []]
              @ (if noSep then [] else [createSpaceSpan])
              @ [Element [''transcript-content''] ''day'' []]),
         seg_attendee = Some alice, seg_startTimeMs = 0, seg_endTimeMs = 300\<rparr>]"
  by (simp add: populatePartialTranscriptSegmentsFromResult_def specSegments_def goodDay_def
      mkResult_def word_def newBuilder_def populateItem_def closeRun_def itemContentSpan_def
      lowConfidence_def isEntity_def appendChild_def createElement_def specSegment_def
      Let_def)

lemma goodDay_positive_start:
  "populatePartialTranscriptSegmentsFromResult noSep {} [] (goodDay 100) =
     Inr [\<lparr>seg_contentSpan = Element [] []
            ([Element [''transcript-content''] ''good'' []]
              @ (if noSep then [] else [createSpaceSpan])
              @ [Element [''transcript-content''] ''day'' []]),
          seg_attendee = Some alice, seg_startTimeMs = 100, seg_endTimeMs = 300\<rparr>]"
  by (simp add: populatePartialTranscriptSegmentsFromResult_def goodDay_def
      mkResult_def word_def newBuilder_def populateItem_def closeRun_def itemContentSpan_def
      lowConfidence_def isEntity_def appendChild_def createElement_def Let_def)

text \<open>
  Claim C8. In the specification's scenario the finalized r1 holds the word at time 0 and
  a full stop; its wording gives one segment, the word followed directly by the full
  stop, from time 0 to the end time 600 of the full stop. In the source the run opened
  at time 0 does not count as open (\<^verbatim>\<open>!startTimeMs\<close> is true for 0), so the full stop
  is not appended to it and closes nothing: it opens a run of its own, which the end of
  the items closes. The only segment is the full stop alone, from its start time 500.
\<close>

theorem C8_punctuation_after_zero_start:
  "populatePartialTranscriptSegmentsFromResult noSep {} [] (helloStop X 0) =
     Inr [\<lparr>seg_contentSpan = Element [] [] [Element [''transcript-content''] ''.'' []],
           seg_attendee = Some X, seg_startTimeMs = 500, seg_endTimeMs = 600\<rparr>]
   \<and> specSegments noSep {} (helloStop X 0) =
       [\<lparr>seg_contentSpan = Element [] []
            [Element [''transcript-content''] ''hello'' [],
             Element [''transcript-content''] ''.'' []],
         seg_attendee = Some X, seg_startTimeMs = 0, seg_endTimeMs = 600\<rparr>]"
  by (simp add: populatePartialTranscriptSegmentsFromResult_def specSegments_def helloStop_def
      word_def punctuation_def newBuilder_def populateItem_def closeRun_def
      itemContentSpan_def lowConfidence_def isEntity_def appendChild_def createElement_def
      specSegment_def Let_def)

lemma helloStop_positive_start:
  "populatePartialTranscriptSegmentsFromResult noSep {} [] (helloStop X 1) =
     Inr [\<lparr>seg_contentSpan = Element [] []
            [Element [''transcript-content''] ''hello'' [],
             Element [''transcript-content''] ''.'' []],
          seg_attendee = Some X, seg_startTimeMs = 1, seg_endTimeMs = 600\<rparr>]"
  by (simp add: populatePartialTranscriptSegmentsFromResult_def helloStop_def
      word_def punctuation_def newBuilder_def populateItem_def closeRun_def
      itemContentSpan_def lowConfidence_def isEntity_def appendChild_def createElement_def
      Let_def)

section \<open>Maps\<close>

lemma jsmap_set_new: "k \<notin> set (map fst m) \<Longrightarrow> jsmap_set k v m = m @ [(k, v)]"
  by (induction m) auto

lemma jsmap_set_same: "map_of m k = Some v \<Longrightarrow> jsmap_set k v m = m"
  by (induction m) (auto split: if_splits)

lemma jsmap_keys_set:
  "map fst (jsmap_set k v m) = (if k \<in> set (map fst m) then map fst m else map fst m @ [k])"
  by (induction m) (auto simp: rev_image_eqI)

lemma jsmap_set_distinct: "distinct (map fst m) \<Longrightarrow> distinct (map fst (jsmap_set k v m))"
  by (simp add: jsmap_keys_set)

lemma map_of_jsmap_set:
  "map_of (jsmap_set k v m) k' = (if k' = k then Some v else map_of m k')"
  by (induction m) auto

lemma jsmap_delete_keys: "map fst (jsmap_delete k m) = filter (\<lambda>x. x \<noteq> k) (map fst m)"
  by (induction m) (auto simp: jsmap_delete_def)

lemma map_of_jsmap_delete:
  "map_of (jsmap_delete k m) k' = (if k' = k then None else map_of m k')"
  by (induction m) (auto simp: jsmap_delete_def)

section \<open>Renderer\<close>

lemma notLatestSpeaker_iff:
  assumes "distinct (jsmap_keys m)" and "jsmap_has m k"
  shows "notLatestSpeaker m k = (last (jsmap_keys m) \<noteq> k)"
proof -
  let ?ks = "jsmap_keys m"
  from assms(2) have mem: "k \<in> set ?ks" by (simp add: jsmap_has_def jsmap_keys_def)
  then obtain pre post where sp: "?ks = pre @ k # post" "k \<notin> set pre"
    by (meson split_list_first)
  have tw: "takeWhile (\<lambda>x. x \<noteq> k) ?ks = pre"
  proof -
    have "\<And>x. x \<in> set pre \<Longrightarrow> x \<noteq> k" using sp(2) by blast
    then have "takeWhile (\<lambda>x. x \<noteq> k) (pre @ k # post)
                 = pre @ takeWhile (\<lambda>x. x \<noteq> k) (k # post)"
      by (rule takeWhile_append2)
    then show ?thesis using sp(1) by simp
  qed
  have len: "length ?ks = length pre + 1 + length post" using sp(1) by simp
  show ?thesis
  proof (cases post rule: rev_cases)
    case Nil
    then have "last ?ks = k" using sp(1) by simp
    moreover have "\<not> notLatestSpeaker m k"
      unfolding notLatestSpeaker_def tw using len Nil by simp
    ultimately show ?thesis by simp
  next
    case (snoc ys y)
    then have l: "last ?ks = y" using sp(1) by simp
    have "y \<in> set post" using snoc by simp
    then have "y \<noteq> k" using assms(1) sp(1) by auto
    moreover have "notLatestSpeaker m k"
      unfolding notLatestSpeaker_def tw using len snoc by simp
    ultimately show ?thesis using l by simp
  qed
qed

lemma renderingOk_empty: "renderingOk \<lparr>blocks = [], speakerToTranscriptSpanMap = []\<rparr>"
  by (simp add: renderingOk_def jsmap_keys_def)

lemma appendNew_fresh:
  assumes "renderingOk r" and "\<not> jsmap_has (speakerToTranscriptSpanMap r) (attendeeId a)"
  shows "renderingOk (appendNewSpeakerTranscriptDiv seg a r)"
    and "speakerToTranscriptSpanMap (appendNewSpeakerTranscriptDiv seg a r)
           = speakerToTranscriptSpanMap r @ [(attendeeId a, length (blocks r))]"
proof -
  have new: "attendeeId a \<notin> set (map fst (speakerToTranscriptSpanMap r))"
    using assms(2) by (simp add: jsmap_has_def)
  show m: "speakerToTranscriptSpanMap (appendNewSpeakerTranscriptDiv seg a r)
           = speakerToTranscriptSpanMap r @ [(attendeeId a, length (blocks r))]"
    by (simp add: appendNewSpeakerTranscriptDiv_def jsmap_set_new [OF new])
  have b: "length (blocks (appendNewSpeakerTranscriptDiv seg a r)) = Suc (length (blocks r))"
    by (simp add: appendNewSpeakerTranscriptDiv_def)
  show "renderingOk (appendNewSpeakerTranscriptDiv seg a r)"
    unfolding renderingOk_def m b using assms(1) new
    by (auto simp: renderingOk_def jsmap_keys_def less_Suc_eq)
qed

lemma renderingOk_delete:
  "renderingOk r \<Longrightarrow>
   renderingOk (r\<lparr>speakerToTranscriptSpanMap := jsmap_delete k (speakerToTranscriptSpanMap r)\<rparr>)"
  by (auto simp: renderingOk_def jsmap_keys_def jsmap_delete_keys distinct_map_filter)
     (auto simp: jsmap_delete_def)

lemma not_has_delete: "\<not> jsmap_has (jsmap_delete k m) k"
  by (simp add: jsmap_has_def jsmap_delete_keys)

lemma latestSpeaker_iff:
  "(latestSpeaker r = Some k) =
     (jsmap_keys (speakerToTranscriptSpanMap r) \<noteq> []
       \<and> last (jsmap_keys (speakerToTranscriptSpanMap r)) = k)"
  by (cases "jsmap_keys (speakerToTranscriptSpanMap r)") (simp_all add: latestSpeaker_def)

lemma has_get: "jsmap_has m k = (\<exists>i. jsmap_get m k = Some i)"
  using map_of_eq_None_iff [of m k] by (auto simp: jsmap_has_def jsmap_get_def)

lemma appendNew_latest:
  assumes "renderingOk r" and "\<not> jsmap_has (speakerToTranscriptSpanMap r) (attendeeId a)"
  shows "latestSpeaker (appendNewSpeakerTranscriptDiv seg a r) = Some (attendeeId a)"
    and "jsmap_get (speakerToTranscriptSpanMap (appendNewSpeakerTranscriptDiv seg a r))
           (attendeeId a) = Some (length (blocks r))"
    and "renderedIn (appendNewSpeakerTranscriptDiv seg a r) (length (blocks r)) seg"
proof -
  note m = appendNew_fresh(2) [OF assms, of seg]
  show "latestSpeaker (appendNewSpeakerTranscriptDiv seg a r) = Some (attendeeId a)"
    by (simp add: latestSpeaker_iff m jsmap_keys_def)
  have "map_of (speakerToTranscriptSpanMap r) (attendeeId a) = None"
    using assms(2) by (simp add: has_get jsmap_get_def)
  then show "jsmap_get (speakerToTranscriptSpanMap (appendNewSpeakerTranscriptDiv seg a r))
           (attendeeId a) = Some (length (blocks r))"
    by (simp add: m jsmap_get_def map_add_def)
  show "renderedIn (appendNewSpeakerTranscriptDiv seg a r) (length (blocks r)) seg"
    by (simp add: renderedIn_def appendNewSpeakerTranscriptDiv_def)
qed

lemma renderSegment_step:
  assumes ok: "renderingOk r" and att: "seg_attendee seg = Some a"
  shows "\<exists>r' i. renderSegment r seg = Inr r' \<and> renderingOk r'
           \<and> latestSpeaker r' = Some (attendeeId a)
           \<and> jsmap_get (speakerToTranscriptSpanMap r') (attendeeId a) = Some i
           \<and> renderedIn r' i seg"
proof -
  let ?m = "speakerToTranscriptSpanMap r" and ?k = "attendeeId a"
  consider (fresh) "\<not> jsmap_has ?m ?k"
    | (broken) "jsmap_has ?m ?k" "notLatestSpeaker ?m ?k"
    | (merged) "jsmap_has ?m ?k" "\<not> notLatestSpeaker ?m ?k"
    by blast
  then show ?thesis
  proof cases
    case fresh
    then have "renderSegment r seg = Inr (appendNewSpeakerTranscriptDiv seg a r)"
      using att by (simp add: renderSegment_def)
    then show ?thesis
      using appendNew_fresh(1) [OF ok fresh] appendNew_latest [OF ok fresh] by blast
  next
    case broken
    let ?r = "r\<lparr>speakerToTranscriptSpanMap := jsmap_delete ?k ?m\<rparr>"
    have ok': "renderingOk ?r" by (rule renderingOk_delete [OF ok])
    have fresh: "\<not> jsmap_has (speakerToTranscriptSpanMap ?r) ?k"
      by (simp add: not_has_delete)
    have "renderSegment r seg = Inr (appendNewSpeakerTranscriptDiv seg a ?r)"
      using att broken by (simp add: renderSegment_def)
    then show ?thesis
      using appendNew_fresh(1) [OF ok' fresh] appendNew_latest [OF ok' fresh] by blast
  next
    case merged
    from merged(1) obtain i where i: "jsmap_get ?m ?k = Some i" by (auto simp: has_get)
    then have "(?k, i) \<in> set ?m" by (simp add: jsmap_get_def map_of_SomeD)
    then have bound: "i < length (blocks r)" using ok by (auto simp: renderingOk_def)
    let ?r = "r\<lparr>blocks := (blocks r)
                [i := (blocks r ! i)\<lparr>contentSpan :=
                    appendChild (appendChild (contentSpan (blocks r ! i)) createSpaceSpan)
                      (seg_contentSpan seg)\<rparr>]\<rparr>"
    have step: "renderSegment r seg = Inr ?r"
      using att merged i by (simp add: renderSegment_def)
    have "renderingOk ?r" using ok by (simp add: renderingOk_def)
    moreover have "latestSpeaker ?r = Some ?k"
      using notLatestSpeaker_iff [of ?m ?k] merged ok
      by (auto simp: latestSpeaker_iff renderingOk_def jsmap_has_def jsmap_keys_def)
    moreover have "jsmap_get (speakerToTranscriptSpanMap ?r) ?k = Some i" using i by simp
    moreover have "renderedIn ?r i seg"
      using bound by (simp add: renderedIn_def appendChild_def)
    ultimately show ?thesis using step by blast
  qed
qed

text \<open>
  Claim C9. In every state of the loop over the segments, a segment of attendee A is
  rendered into some block, and a segment of the same attendee that follows it directly
  is appended to the content span of that very block, after one space span, without a
  new block. A segment whose attendee has a span in the map but is not the attendee
  whose span was opened last gets a new speaker block at the end, and the map forgets
  the old span and refers to the new block.
\<close>

theorem C9_speaker_continuity:
  assumes "renderingOk r" and "seg_attendee s1 = Some a" and "seg_attendee s2 = Some a'"
    and "attendeeId a' = attendeeId a"
  shows "(\<exists>r1 i. renderSegment r s1 = Inr r1
            \<and> jsmap_get (speakerToTranscriptSpanMap r1) (attendeeId a) = Some i
            \<and> renderedIn r1 i s1
            \<and> renderSegment r1 s2 =
                Inr (r1\<lparr>blocks := (blocks r1)
                      [i := (blocks r1 ! i)\<lparr>contentSpan :=
                          appendChild (appendChild (contentSpan (blocks r1 ! i)) createSpaceSpan)
                            (seg_contentSpan s2)\<rparr>]\<rparr>))
       \<and> (jsmap_has (speakerToTranscriptSpanMap r) (attendeeId a)
            \<and> latestSpeaker r \<noteq> Some (attendeeId a) \<longrightarrow>
          renderSegment r s1 =
            Inr \<lparr>blocks = blocks r @
                   [\<lparr>speakerSpan = Element [''transcript-speaker'']
                        (last (split (CHR ''#'') (externalUserId a)) @ '': '') [],
                     contentSpan = seg_contentSpan s1\<rparr>],
                 speakerToTranscriptSpanMap =
                   jsmap_delete (attendeeId a) (speakerToTranscriptSpanMap r)
                     @ [(attendeeId a, length (blocks r))]\<rparr>)"
proof (intro conjI impI)
  from renderSegment_step [OF assms(1,2)] obtain r1 i where
    r1: "renderSegment r s1 = Inr r1" "renderingOk r1"
      "latestSpeaker r1 = Some (attendeeId a)"
      "jsmap_get (speakerToTranscriptSpanMap r1) (attendeeId a) = Some i"
      "renderedIn r1 i s1"
    by blast
  let ?m = "speakerToTranscriptSpanMap r1" and ?k = "attendeeId a"
  have has: "jsmap_has ?m ?k" using r1(4) by (auto simp: has_get)
  have "\<not> notLatestSpeaker ?m ?k"
    using notLatestSpeaker_iff [of ?m ?k] has r1(2,3)
    by (simp add: latestSpeaker_iff renderingOk_def)
  then have "renderSegment r1 s2 =
                Inr (r1\<lparr>blocks := (blocks r1)
                      [i := (blocks r1 ! i)\<lparr>contentSpan :=
                          appendChild (appendChild (contentSpan (blocks r1 ! i)) createSpaceSpan)
                            (seg_contentSpan s2)\<rparr>]\<rparr>)"
    using has r1(4) assms(3,4) by (simp add: renderSegment_def)
  with r1 show "\<exists>r1 i. renderSegment r s1 = Inr r1
            \<and> jsmap_get (speakerToTranscriptSpanMap r1) (attendeeId a) = Some i
            \<and> renderedIn r1 i s1
            \<and> renderSegment r1 s2 =
                Inr (r1\<lparr>blocks := (blocks r1)
                      [i := (blocks r1 ! i)\<lparr>contentSpan :=
                          appendChild (appendChild (contentSpan (blocks r1 ! i)) createSpaceSpan)
                            (seg_contentSpan s2)\<rparr>]\<rparr>)"
    by blast
next
  let ?m = "speakerToTranscriptSpanMap r" and ?k = "attendeeId a"
  assume h: "jsmap_has ?m ?k \<and> latestSpeaker r \<noteq> Some ?k"
  then have "jsmap_keys ?m \<noteq> []" by (auto simp: jsmap_has_def jsmap_keys_def)
  with h have "last (jsmap_keys ?m) \<noteq> ?k" by (simp add: latestSpeaker_iff)
  then have nl: "notLatestSpeaker ?m ?k"
    using notLatestSpeaker_iff [of ?m ?k] h assms(1) by (simp add: renderingOk_def)
  have "?k \<notin> set (map fst (jsmap_delete ?k ?m))" by (simp add: jsmap_delete_keys)
  then have "jsmap_set ?k (length (blocks r)) (jsmap_delete ?k ?m)
               = jsmap_delete ?k ?m @ [(?k, length (blocks r))]"
    by (rule jsmap_set_new)
  then show "renderSegment r s1 =
            Inr \<lparr>blocks = blocks r @
                   [\<lparr>speakerSpan = Element [''transcript-speaker'']
                        (last (split (CHR ''#'') (externalUserId a)) @ '': '') [],
                     contentSpan = seg_contentSpan s1\<rparr>],
                 speakerToTranscriptSpanMap = jsmap_delete ?k ?m @ [(?k, length (blocks r))]\<rparr>"
    using h nl assms(2)
    by (simp add: renderSegment_def appendNewSpeakerTranscriptDiv_def Let_def)
qed

lemma aliceThenBob_value:
  "aliceThenBob =
     \<lparr>blocks =
        [\<lparr>speakerSpan = Element [''transcript-speaker''] ''Alice: '' [],
          contentSpan = Element [] [] [Element [''transcript-content''] ''hi'' []]\<rparr>,
         \<lparr>speakerSpan = Element [''transcript-speaker''] ''Bob: '' [],
          contentSpan = Element [] [] [Element [''transcript-content''] ''yes'' []]\<rparr>],
      speakerToTranscriptSpanMap = [(''a1'', 0), (''b2'', 1)]\<rparr>"
  by (simp add: aliceThenBob_def renderSegment_def exampleSegment_def alice_def bob_def
      jsmap_has_def appendNewSpeakerTranscriptDiv_def)

theorem C9_speaker_continuity_witness:
  "renderingOk aliceThenBob
   \<and> seg_attendee (exampleSegment alice ''again'' 300 400) = Some alice
   \<and> attendeeId alice = attendeeId alice
   \<and> jsmap_has (speakerToTranscriptSpanMap aliceThenBob) (attendeeId alice)
   \<and> latestSpeaker aliceThenBob \<noteq> Some (attendeeId alice)
   \<and> renderSegment aliceThenBob (exampleSegment alice ''again'' 300 400) =
       Inr \<lparr>blocks = blocks aliceThenBob @
              [\<lparr>speakerSpan = Element [''transcript-speaker'']
                   (last (split (CHR ''#'') (externalUserId alice)) @ '': '') [],
                contentSpan = seg_contentSpan (exampleSegment alice ''again'' 300 400)\<rparr>],
            speakerToTranscriptSpanMap =
              jsmap_delete (attendeeId alice) (speakerToTranscriptSpanMap aliceThenBob)
                @ [(attendeeId alice, length (blocks aliceThenBob))]\<rparr>"
proof -
  have h1: "renderingOk aliceThenBob"
    by (simp add: aliceThenBob_value renderingOk_def jsmap_keys_def)
  have h2: "seg_attendee (exampleSegment alice ''again'' 300 400) = Some alice"
    by (simp add: exampleSegment_def)
  have h3: "jsmap_has (speakerToTranscriptSpanMap aliceThenBob) (attendeeId alice)"
    by (simp add: aliceThenBob_value jsmap_has_def alice_def)
  have h4: "latestSpeaker aliceThenBob \<noteq> Some (attendeeId alice)"
    by (simp add: aliceThenBob_value latestSpeaker_def jsmap_keys_def alice_def)
  from C9_speaker_continuity [OF h1 h2 h2 refl] h1 h2 h3 h4 show ?thesis by blast
qed

section \<open>Re-upserting a tracked result\<close>

text \<open>
  When the result map already holds the result under its identifier, setting it again
  leaves the result map as it is, so a pass over the state gives the same sorted segment
  list and the same blocks with and without the upsert.
\<close>

lemma reupsert_same_result_map:
  assumes "jsmap_get (partialTranscriptResultMap s) (resultId result) = Some result"
  shows "partialTranscriptResultMap (upsert result s) = partialTranscriptResultMap s
     \<and> partialTranscriptSegments noSep ents (partialTranscriptResultMap (upsert result s))
         = partialTranscriptSegments noSep ents (partialTranscriptResultMap s)
     \<and> fst (updatePartialTranscriptDiv (upsert result s)) = fst (updatePartialTranscriptDiv s)
     \<and> divs (snd (updatePartialTranscriptDiv (upsert result s)))
         = divs (snd (updatePartialTranscriptDiv s))"
proof -
  have same: "partialTranscriptResultMap (upsert result s) = partialTranscriptResultMap s"
    using assms by (simp add: upsert_def jsmap_get_def jsmap_set_same)
  have fields: "partialTranscriptDiv (upsert result s) = partialTranscriptDiv s"
    "noWordSeparatorForTranscription (upsert result s) = noWordSeparatorForTranscription s"
    "transcriptEntitySet (upsert result s) = transcriptEntitySet s"
    "divs (upsert result s) = divs s"
    by (simp_all add: upsert_def)
  have "fst (updatePartialTranscriptDiv (upsert result s)) = fst (updatePartialTranscriptDiv s)"
    unfolding updatePartialTranscriptDiv_def same fields
    by (simp split: option.split sum.split prod.split)
  moreover have "divs (snd (updatePartialTranscriptDiv (upsert result s)))
         = divs (snd (updatePartialTranscriptDiv s))"
    unfolding updatePartialTranscriptDiv_def same fields
    by (simp add: fields split: option.split sum.split prod.split)
  ultimately show ?thesis using same by simp
qed

section \<open>The handler and the two maps\<close>

lemma updatePartialTranscriptDiv_fields:
  assumes "updatePartialTranscriptDiv s = (e, s')"
  shows "partialTranscriptResultTimeMap s' = partialTranscriptResultTimeMap s"
    and "partialTranscriptResultMap s' = partialTranscriptResultMap s"
    and "transcriptEntitySet s' = transcriptEntitySet s"
    and "noWordSeparatorForTranscription s' = noWordSeparatorForTranscription s"
    and "enableLiveTranscription s' = enableLiveTranscription s"
    and "partialTranscriptDiv s' = partialTranscriptDiv s"
    and "transcriptContainerDiv s' = transcriptContainerDiv s"
    and "length (divs s') = length (divs s)"
  using assms
  by (auto simp: updatePartialTranscriptDiv_def split: option.splits sum.splits prod.splits)

lemma renderPartialTranscriptResults_fields:
  assumes "renderPartialTranscriptResults s = (e, s')"
  shows "partialTranscriptResultTimeMap s' = partialTranscriptResultTimeMap s"
    and "partialTranscriptResultMap s' = partialTranscriptResultMap s"
    and "transcriptEntitySet s' = transcriptEntitySet s"
    and "noWordSeparatorForTranscription s' = noWordSeparatorForTranscription s"
    and "enableLiveTranscription s' = enableLiveTranscription s"
proof -
  show "partialTranscriptResultTimeMap s' = partialTranscriptResultTimeMap s"
    using assms
    by (auto simp: renderPartialTranscriptResults_def Let_def
        dest: updatePartialTranscriptDiv_fields(1) split: option.splits prod.splits)
  show "partialTranscriptResultMap s' = partialTranscriptResultMap s"
    using assms
    by (auto simp: renderPartialTranscriptResults_def Let_def
        dest: updatePartialTranscriptDiv_fields(2) split: option.splits prod.splits)
  show "transcriptEntitySet s' = transcriptEntitySet s"
    using assms
    by (auto simp: renderPartialTranscriptResults_def Let_def
        dest: updatePartialTranscriptDiv_fields(3) split: option.splits prod.splits)
  show "noWordSeparatorForTranscription s' = noWordSeparatorForTranscription s"
    using assms
    by (auto simp: renderPartialTranscriptResults_def Let_def
        dest: updatePartialTranscriptDiv_fields(4) split: option.splits prod.splits)
  show "enableLiveTranscription s' = enableLiveTranscription s"
    using assms
    by (auto simp: renderPartialTranscriptResults_def Let_def
        dest: updatePartialTranscriptDiv_fields(5) split: option.splits prod.splits)
qed

lemma addEntities_fields:
  assumes "addEntities result s = Inr s'"
  shows "partialTranscriptResultTimeMap s' = partialTranscriptResultTimeMap s"
    and "partialTranscriptResultMap s' = partialTranscriptResultMap s"
    and "isPartial result \<Longrightarrow> s' = s"
  using assms
  by (auto simp: addEntities_def split: if_splits list.splits option.splits)

text \<open>What a call of the loop body that does not throw leaves in the two maps.\<close>

lemma processResult_maps:
  assumes "processResult result s = (None, s')"
  shows "partialTranscriptResultTimeMap s' =
           (if isPartial result
            then jsmap_set (resultId result) (endTimeMs result) (partialTranscriptResultTimeMap s)
            else jsmap_delete (resultId result)
                   (evictOlder (resultId result) (endTimeMs result)
                      (jsmap_set (resultId result) (endTimeMs result)
                         (partialTranscriptResultTimeMap s))))"
    and "partialTranscriptResultMap s' =
           (if \<not> isPartial result \<and> partialTranscriptResultTimeMap s' = [] then []
            else jsmap_set (resultId result) result (partialTranscriptResultMap s))"
    and "transcriptEntitySet s' = (if isPartial result then transcriptEntitySet s else {})"
proof -
  let ?s1 = "if noSeparatorLanguage (languageCode result)
             then s\<lparr>noWordSeparatorForTranscription := True\<rparr> else s"
  from assms obtain s2 s3 where
    a: "addEntities result ?s1 = Inr s2" and
    r: "renderPartialTranscriptResults (upsert result s2) = (None, s3)" and
    f: "s' = (if isPartial result then s3 else finalizeResult result s3)"
    by (auto simp: processResult_def Let_def split: sum.splits prod.splits option.splits if_splits)
  have t3: "partialTranscriptResultTimeMap s3 =
      jsmap_set (resultId result) (endTimeMs result) (partialTranscriptResultTimeMap s)"
    using renderPartialTranscriptResults_fields(1) [OF r] addEntities_fields(1) [OF a]
    by (simp add: upsert_def)
  have m3: "partialTranscriptResultMap s3 =
      jsmap_set (resultId result) result (partialTranscriptResultMap s)"
    using renderPartialTranscriptResults_fields(2) [OF r] addEntities_fields(2) [OF a]
    by (simp add: upsert_def)
  have e3: "isPartial result \<Longrightarrow> transcriptEntitySet s3 = transcriptEntitySet s"
    using renderPartialTranscriptResults_fields(3) [OF r] addEntities_fields(3) [OF a]
    by (simp add: upsert_def split: if_splits)
  show "partialTranscriptResultTimeMap s' =
           (if isPartial result
            then jsmap_set (resultId result) (endTimeMs result) (partialTranscriptResultTimeMap s)
            else jsmap_delete (resultId result)
                   (evictOlder (resultId result) (endTimeMs result)
                      (jsmap_set (resultId result) (endTimeMs result)
                         (partialTranscriptResultTimeMap s))))"
    using f t3 by (simp add: finalizeResult_def Let_def)
  show "partialTranscriptResultMap s' =
           (if \<not> isPartial result \<and> partialTranscriptResultTimeMap s' = [] then []
            else jsmap_set (resultId result) result (partialTranscriptResultMap s))"
    using f t3 m3 by (simp add: finalizeResult_def Let_def)
  show "transcriptEntitySet s' = (if isPartial result then transcriptEntitySet s else {})"
    using f e3 by (simp add: finalizeResult_def Let_def)
qed

section \<open>Eviction\<close>

lemma evictOlder_subset: "set (evictOlder rid e m) \<subseteq> set m"
  by (induction rid e m rule: evictOlder.induct) auto

lemma evictOlder_distinct:
  "distinct (map fst m) \<Longrightarrow> distinct (map fst (evictOlder rid e m))"
proof (induction rid e m rule: evictOlder.induct)
  case (1 rid e)
  then show ?case by simp
next
  case (2 rid e k t m)
  have "fst ` set (evictOlder rid e m) \<subseteq> fst ` set m"
    using evictOlder_subset [of rid e m] by blast
  with 2 show ?case by auto
qed

lemma map_of_evictOlder:
  assumes "distinct (map fst m)" and "k \<noteq> rid"
  shows "map_of (evictOlder rid e m) k =
           (if k \<in> set (takeWhile (\<lambda>x. x \<noteq> rid) (map fst m))
               \<and> (\<exists>t. map_of m k = Some t \<and> t < jsMinus e 5000)
            then None else map_of m k)"
  using assms
proof (induction rid e m rule: evictOlder.induct)
  case (1 rid e)
  then show ?case by simp
next
  case (2 rid e k' t m)
  have notin: "k' \<notin> fst ` set m" using "2.prems"(1) by simp
  show ?case
  proof (cases "k' = rid")
    case True
    then show ?thesis by simp
  next
    case False
    note neq = this
    have d: "distinct (map fst m)" using "2.prems"(1) by simp
    show ?thesis
    proof (cases "t < jsMinus e 5000")
      case True
      have ih: "map_of (evictOlder rid e m) k =
           (if k \<in> set (takeWhile (\<lambda>x. x \<noteq> rid) (map fst m))
               \<and> (\<exists>t. map_of m k = Some t \<and> t < jsMinus e 5000)
            then None else map_of m k)"
        using "2.IH"(1) [OF neq True d "2.prems"(2)] .
      show ?thesis
      proof (cases "k = k'")
        case True
        have "map_of m k = None" using notin True by (simp add: map_of_eq_None_iff)
        then show ?thesis using neq \<open>t < jsMinus e 5000\<close> True ih by simp
      next
        case False
        then show ?thesis using neq \<open>t < jsMinus e 5000\<close> ih
          by (cases "map_of m k") auto
      qed
    next
      case False
      have ih: "map_of (evictOlder rid e m) k =
           (if k \<in> set (takeWhile (\<lambda>x. x \<noteq> rid) (map fst m))
               \<and> (\<exists>t. map_of m k = Some t \<and> t < jsMinus e 5000)
            then None else map_of m k)"
        using "2.IH"(2) [OF neq False d "2.prems"(2)] .
      show ?thesis using neq False ih by (cases "map_of m k") auto
    qed
  qed
qed

lemma takeWhile_keys_set:
  "takeWhile (\<lambda>x. x \<noteq> k) (map fst (jsmap_set k v m)) = takeWhile (\<lambda>x. x \<noteq> k) (map fst m)"
  by (induction m) auto

text \<open>
  Claim C2, as the code has it. After a finalized result R is processed without a throw,
  a key K other than R's is gone from the time map exactly when it was inserted before
  R's key and its end time is below the threshold \<^verbatim>\<open>R.endTimeMs - 5000\<close> as the double
  arithmetic computes it, which is the exact difference up to \<open>2^53\<close>; every other key
  keeps its end time, whether it is recent or was inserted after R's key; R's own key is
  gone. The result map keeps the result stored under K, evicted or not, unless no key is
  tracked any more, when the whole result map is emptied.
\<close>

theorem C2_eviction_of_older_keys:
  assumes "\<not> isPartial R" and "processResult R s = (None, s')"
    and "distinct (jsmap_keys (partialTranscriptResultTimeMap s))"
    and "K \<noteq> resultId R"
  shows "jsmap_get (partialTranscriptResultTimeMap s') K =
           (if insertedBefore (partialTranscriptResultTimeMap s) K (resultId R)
               \<and> (\<exists>t. jsmap_get (partialTranscriptResultTimeMap s) K = Some t
                        \<and> t < jsMinus (endTimeMs R) 5000)
            then None
            else jsmap_get (partialTranscriptResultTimeMap s) K)
     \<and> jsmap_get (partialTranscriptResultTimeMap s') (resultId R) = None
     \<and> jsmap_get (partialTranscriptResultMap s') K =
           (if partialTranscriptResultTimeMap s' = [] then None
            else jsmap_get (partialTranscriptResultMap s) K)
     \<and> (\<bar>endTimeMs R - 5000\<bar> \<le> 9007199254740992 \<longrightarrow>
           jsMinus (endTimeMs R) 5000 = endTimeMs R - 5000)"
proof -
  let ?m = "partialTranscriptResultTimeMap s"
  let ?m1 = "jsmap_set (resultId R) (endTimeMs R) ?m"
  have t: "partialTranscriptResultTimeMap s' =
      jsmap_delete (resultId R) (evictOlder (resultId R) (endTimeMs R) ?m1)"
    using processResult_maps(1) [OF assms(2)] assms(1) by simp
  have r: "jsmap_get (partialTranscriptResultMap s') K =
           (if partialTranscriptResultTimeMap s' = [] then None
            else jsmap_get (partialTranscriptResultMap s) K)"
    using processResult_maps(2) [OF assms(2)] assms(1,4)
    by (simp add: jsmap_get_def map_of_jsmap_set)
  have d1: "distinct (map fst ?m1)"
    using assms(3) by (simp add: jsmap_keys_def jsmap_set_distinct)
  have "map_of (evictOlder (resultId R) (endTimeMs R) ?m1) K =
           (if K \<in> set (takeWhile (\<lambda>x. x \<noteq> resultId R) (map fst ?m1))
               \<and> (\<exists>t. map_of ?m1 K = Some t \<and> t < jsMinus (endTimeMs R) 5000)
            then None else map_of ?m1 K)"
    by (rule map_of_evictOlder [OF d1 assms(4)])
  then have "map_of (evictOlder (resultId R) (endTimeMs R) ?m1) K =
           (if K \<in> set (takeWhile (\<lambda>x. x \<noteq> resultId R) (map fst ?m))
               \<and> (\<exists>t. map_of ?m K = Some t \<and> t < jsMinus (endTimeMs R) 5000)
            then None else map_of ?m K)"
    using assms(4)
    by (cases "map_of ?m K") (simp_all add: takeWhile_keys_set map_of_jsmap_set)
  then have "jsmap_get (partialTranscriptResultTimeMap s') K =
           (if insertedBefore (partialTranscriptResultTimeMap s) K (resultId R)
               \<and> (\<exists>t. jsmap_get (partialTranscriptResultTimeMap s) K = Some t
                        \<and> t < jsMinus (endTimeMs R) 5000)
            then None
            else jsmap_get (partialTranscriptResultTimeMap s) K)"
    using assms(4)
    by (cases "map_of ?m K")
      (auto simp: t jsmap_get_def map_of_jsmap_delete insertedBefore_def jsmap_keys_def)
  moreover have "jsmap_get (partialTranscriptResultTimeMap s') (resultId R) = None"
    by (simp add: t jsmap_get_def map_of_jsmap_delete)
  ultimately show ?thesis using r jsMinus_exact by blast
qed

section \<open>Tracked keys refer to partial results\<close>

lemma jsmap_set_not_Nil: "jsmap_set k v m \<noteq> []"
  by (cases m) (auto split: if_splits)

lemma jsmap_delete_distinct: "distinct (map fst m) \<Longrightarrow> distinct (map fst (jsmap_delete k m))"
  by (simp add: jsmap_delete_keys)

lemma storeInv_processResult:
  assumes inv: "storeInv s" and run: "processResult result s = (None, s')"
  shows "storeInv s'"
proof -
  let ?tm = "partialTranscriptResultTimeMap s" and ?rm = "partialTranscriptResultMap s"
  let ?rid = "resultId result" and ?e = "endTimeMs result"
  note maps = processResult_maps [OF run]
  have d: "distinct (map fst ?tm)" using inv by (simp add: storeInv_def jsmap_keys_def)
  have tracked: "\<And>k t. map_of ?tm k = Some t \<Longrightarrow>
      \<exists>r. map_of ?rm k = Some r \<and> isPartial r \<and> endTimeMs r = t \<and> resultId r = k"
    using inv by (simp add: storeInv_def jsmap_get_def)
  show ?thesis
  proof (cases "isPartial result")
    case True
    have t: "partialTranscriptResultTimeMap s' = jsmap_set ?rid ?e ?tm"
      and m: "partialTranscriptResultMap s' = jsmap_set ?rid result ?rm"
      and e: "transcriptEntitySet s' = {}"
      using maps True inv by (simp_all add: storeInv_def)
    have "\<exists>r. map_of (jsmap_set ?rid result ?rm) k = Some r
              \<and> isPartial r \<and> endTimeMs r = t \<and> resultId r = k"
      if "map_of (jsmap_set ?rid ?e ?tm) k = Some t" for k t
      using that True tracked [of k t] by (auto simp: map_of_jsmap_set split: if_splits)
    then show ?thesis
      unfolding storeInv_def t m e jsmap_get_def jsmap_keys_def
      using d by (simp add: jsmap_set_distinct jsmap_set_not_Nil)
  next
    case False
    let ?tm' = "jsmap_delete ?rid (evictOlder ?rid ?e (jsmap_set ?rid ?e ?tm))"
    have t: "partialTranscriptResultTimeMap s' = ?tm'"
      and m: "partialTranscriptResultMap s' =
                (if ?tm' = [] then [] else jsmap_set ?rid result ?rm)"
      and e: "transcriptEntitySet s' = {}"
      using maps False by simp_all
    have d1: "distinct (map fst (jsmap_set ?rid ?e ?tm))" using d by (rule jsmap_set_distinct)
    have d': "distinct (map fst ?tm')"
      by (intro jsmap_delete_distinct evictOlder_distinct d1)
    have "\<exists>r. map_of (if ?tm' = [] then [] else jsmap_set ?rid result ?rm) k = Some r
              \<and> isPartial r \<and> endTimeMs r = t \<and> resultId r = k"
      if h: "map_of ?tm' k = Some t" for k t
    proof -
      from h have ne: "?tm' \<noteq> []" by auto
      from h have k: "k \<noteq> ?rid" by (auto simp: map_of_jsmap_delete split: if_splits)
      with h have "map_of (evictOlder ?rid ?e (jsmap_set ?rid ?e ?tm)) k = Some t"
        by (simp add: map_of_jsmap_delete)
      then have "map_of (jsmap_set ?rid ?e ?tm) k = Some t"
        using map_of_evictOlder [OF d1 k, of ?e] by (auto split: if_splits)
      then have "map_of ?tm k = Some t" using k by (simp add: map_of_jsmap_set)
      from tracked [OF this] show ?thesis using ne k by (simp add: map_of_jsmap_set)
    qed
    then show ?thesis
      unfolding storeInv_def t m e jsmap_get_def jsmap_keys_def
      using d' by simp
  qed
qed

lemma storeInv_processResults:
  "storeInv s \<Longrightarrow> processResults results s = (None, s') \<Longrightarrow> storeInv s'"
proof (induction results arbitrary: s)
  case Nil
  then show ?case by simp
next
  case (Cons r rs)
  from Cons.prems(2) obtain s1 where
    1: "processResult r s = (None, s1)" and 2: "processResults rs s1 = (None, s')"
    by (auto split: prod.splits option.splits)
  from Cons.IH [OF storeInv_processResult [OF Cons.prems(1) 1] 2] show ?case .
qed

lemma storeInv_processStatus:
  "storeInv s \<Longrightarrow> processStatus status s = (e, s') \<Longrightarrow> storeInv s'"
  by (auto simp: processStatus_def storeInv_def Let_def jsmap_keys_def jsmap_get_def
      split: if_splits sum.splits)

lemma storeInv_handler:
  assumes "storeInv s" and "transcriptEventHandler event s = (None, s')"
  shows "storeInv s'"
proof -
  let ?s0 = "if \<not> enableLiveTranscription s then s\<lparr>enableLiveTranscription := True\<rparr> else s"
  have 0: "storeInv ?s0" using assms(1) by (simp add: storeInv_def)
  show ?thesis
  proof (cases event)
    case (Status status)
    then have "processStatus status ?s0 = (None, s')"
      using assms(2) by (simp add: transcriptEventHandler_def Let_def)
    then show ?thesis using storeInv_processStatus [OF 0] by blast
  next
    case (Transcript results)
    then have "processResults results ?s0 = (None, s')"
      using assms(2) by (simp add: transcriptEventHandler_def Let_def)
    then show ?thesis using storeInv_processResults [OF 0] by blast
  qed
qed

lemma handleEvents_Cons:
  "handleEvents (e # es) s = handleEvents es (snd (transcriptEventHandler e s))"
  by (simp add: handleEvents_def)

lemma storeInv_handleEvents:
  "storeInv s \<Longrightarrow> noThrow events s \<Longrightarrow> storeInv (handleEvents events s)"
proof (induction events arbitrary: s)
  case Nil
  then show ?case by (simp add: handleEvents_def)
next
  case (Cons e es)
  from Cons.prems(2) obtain s1 where
    1: "transcriptEventHandler e s = (None, s1)" and 2: "noThrow es s1"
    by (auto split: prod.splits option.splits)
  from Cons.IH [OF storeInv_handler [OF Cons.prems(1) 1] 2] 1
  show ?case by (simp add: handleEvents_Cons)
qed

lemma storeInv_initialState: "storeInv initialState"
  by (simp add: storeInv_def initialState_def jsmap_keys_def jsmap_get_def)

text \<open>
  Claim C1, as the code has it. After any sequence of events handled without a throw,
  every key of the time map refers to an entry of the result map that is partial, has
  the recorded end time and carries that key: a finalized result is no longer tracked
  once the call that processed it returns. The result map itself is emptied only when no
  key is tracked any more.
\<close>

theorem C1_tracked_keys_are_partial:
  assumes "noThrow events initialState"
  shows "(\<forall>k t. jsmap_get (partialTranscriptResultTimeMap (handleEvents events initialState)) k
                  = Some t \<longrightarrow>
            (\<exists>r. jsmap_get (partialTranscriptResultMap (handleEvents events initialState)) k
                    = Some r
                  \<and> isPartial r \<and> endTimeMs r = t \<and> resultId r = k))
       \<and> (partialTranscriptResultTimeMap (handleEvents events initialState) = [] \<longrightarrow>
            partialTranscriptResultMap (handleEvents events initialState) = [])"
  using storeInv_handleEvents [OF storeInv_initialState assms]
  by (simp add: storeInv_def)

text \<open>The definitions of the handler, for evaluating it on concrete events.\<close>

lemmas handler_evaluation =
  handleEvents_def transcriptEventHandler_def initialState_def processResult_def
  processStatus_def noSeparatorLanguage_def addEntities_def upsert_def
  renderPartialTranscriptResults_def updatePartialTranscriptDiv_def
  partialTranscriptSegments_def populatePartialTranscriptSegmentsFromResult_def
  newBuilder_def populateItem_def closeRun_def itemContentSpan_def lowConfidence_def
  isEntity_def appendChild_def createElement_def createSpaceSpan_def renderSegment_def
  jsmap_has_def jsmap_get_def jsmap_values_def jsmap_keys_def jsmap_delete_def
  notLatestSpeaker_def appendNewSpeakerTranscriptDiv_def finalizeResult_def Let_def
  mkResult_def word_def punctuation_def alice_def bob_def jsMinus_exact

theorem C1_tracked_keys_are_partial_witness:
  "noThrow [Transcript [kPartial, r1Partial]] initialState
   \<and> jsmap_get (partialTranscriptResultTimeMap
        (handleEvents [Transcript [kPartial, r1Partial]] initialState)) ''k'' = Some 90
   \<and> (\<exists>r. jsmap_get (partialTranscriptResultMap
              (handleEvents [Transcript [kPartial, r1Partial]] initialState)) ''k'' = Some r
          \<and> isPartial r \<and> endTimeMs r = 90 \<and> resultId r = ''k'')"
proof -
  have h: "noThrow [Transcript [kPartial, r1Partial]] initialState"
    by (simp add: handler_evaluation kPartial_def r1Partial_def)
  have t: "jsmap_get (partialTranscriptResultTimeMap
        (handleEvents [Transcript [kPartial, r1Partial]] initialState)) ''k'' = Some 90"
    by (simp add: handler_evaluation kPartial_def r1Partial_def)
  from C1_tracked_keys_are_partial [OF h] h t show ?thesis by blast
qed

text \<open>
  Against claim C1 as stated: one batch with a partial result r1 and a finalized result
  r2 is handled without a throw, and afterwards the values of the result map are r1 and
  r2, the second with \<^verbatim>\<open>isPartial = false\<close>, while only r1 is tracked in the time map.
\<close>

theorem C1_finalized_result_stays_in_result_map:
  "fst (transcriptEventHandler (Transcript [r1Partial, r2Final]) initialState) = None
   \<and> map resultId (jsmap_values (partialTranscriptResultMap
        (snd (transcriptEventHandler (Transcript [r1Partial, r2Final]) initialState))))
       = [''r1'', ''r2'']
   \<and> map isPartial (jsmap_values (partialTranscriptResultMap
        (snd (transcriptEventHandler (Transcript [r1Partial, r2Final]) initialState))))
       = [True, False]
   \<and> jsmap_keys (partialTranscriptResultTimeMap
        (snd (transcriptEventHandler (Transcript [r1Partial, r2Final]) initialState)))
       = [''r1'']"
  by (simp add: handler_evaluation r1Partial_def r2Final_def)

theorem C2_eviction_of_older_keys_witness:
  "\<not> isPartial r1Final
   \<and> processResult r1Final (handleEvents [Transcript [kPartial]] initialState)
       = (None, snd (processResult r1Final (handleEvents [Transcript [kPartial]] initialState)))
   \<and> distinct (jsmap_keys (partialTranscriptResultTimeMap
        (handleEvents [Transcript [kPartial]] initialState)))
   \<and> ''k'' \<noteq> resultId r1Final
   \<and> jsmap_get (partialTranscriptResultTimeMap
        (snd (processResult r1Final (handleEvents [Transcript [kPartial]] initialState))))
        ''k'' = None"
proof -
  let ?s = "handleEvents [Transcript [kPartial]] initialState"
  have h1: "\<not> isPartial r1Final" by (simp add: r1Final_def mkResult_def)
  have "fst (processResult r1Final ?s) = None" by (simp add: handler_evaluation kPartial_def r1Final_def insertedBefore_def)
  then have h2: "processResult r1Final ?s = (None, snd (processResult r1Final ?s))"
    by (simp add: prod_eq_iff)
  have h3: "distinct (jsmap_keys (partialTranscriptResultTimeMap ?s))"
    by (simp add: handler_evaluation kPartial_def r1Final_def insertedBefore_def)
  have h4: "''k'' \<noteq> resultId r1Final" by (simp add: r1Final_def mkResult_def)
  have before: "insertedBefore (partialTranscriptResultTimeMap ?s) ''k'' (resultId r1Final)"
    by (simp add: handler_evaluation kPartial_def r1Final_def insertedBefore_def)
  have stale: "jsmap_get (partialTranscriptResultTimeMap ?s) ''k'' = Some 90"
    "(90::int) < jsMinus (endTimeMs r1Final) 5000"
    by (simp_all add: handler_evaluation kPartial_def r1Final_def insertedBefore_def)
  from C2_eviction_of_older_keys [OF h1 h2 h3 h4] before stale
  have "jsmap_get (partialTranscriptResultTimeMap (snd (processResult r1Final ?s))) ''k'' = None"
    by simp
  with h1 h2 h3 h4 show ?thesis by blast
qed

text \<open>
  Against claim C2 as stated: r1 is tracked first, then k with end time 90; when r1 is
  finalized with end time 10000, the loop ends at r1's key before it reaches k, and k
  stays tracked although 90 is below 10000 - 5000.
\<close>

theorem C2_later_key_is_not_evicted:
  "fst (transcriptEventHandler (Transcript [r1Final])
          (handleEvents [Transcript [r1Partial], Transcript [kPartial]] initialState)) = None
   \<and> jsmap_get (partialTranscriptResultTimeMap
        (handleEvents [Transcript [r1Partial], Transcript [kPartial]] initialState)) ''k''
       = Some 90
   \<and> (90::int) < endTimeMs r1Final - 5000
   \<and> jsmap_get (partialTranscriptResultTimeMap
        (snd (transcriptEventHandler (Transcript [r1Final])
           (handleEvents [Transcript [r1Partial], Transcript [kPartial]] initialState)))) ''k''
       = Some 90"
  by (simp add: handler_evaluation r1Partial_def kPartial_def r1Final_def)

section \<open>Throws\<close>

lemma attendeeInv_populateItem:
  "attendeeInv b \<Longrightarrow> attendeeInv (populateItem noSep ents b item)"
  by (auto simp: attendeeInv_def populateItem_def runOpen_def falsy_def Let_def
      split: option.splits)

lemma attendeeInv_foldl:
  "attendeeInv b \<Longrightarrow> attendeeInv (foldl (populateItem noSep ents) b its)"
  by (induction its arbitrary: b) (simp_all add: attendeeInv_populateItem)

lemma attendeeInv_closeRun:
  "attendeeInv b \<Longrightarrow> \<forall>seg \<in> set (closeRun t b). seg_attendee seg \<noteq> None"
  by (auto simp: attendeeInv_def closeRun_def runOpen_def falsy_def split: option.splits)

lemma populate_total:
  assumes "alternatives result \<noteq> []" and "\<forall>seg \<in> set segs. seg_attendee seg \<noteq> None"
  shows "\<exists>out. populatePartialTranscriptSegmentsFromResult noSep ents segs result = Inr out
           \<and> (\<forall>seg \<in> set out. seg_attendee seg \<noteq> None)"
proof -
  from assms(1) obtain a others where a: "alternatives result = a # others"
    by (cases "alternatives result") auto
  have "attendeeInv (newBuilder segs)"
    using assms(2) by (simp add: attendeeInv_def newBuilder_def runOpen_def falsy_def)
  then have "\<forall>seg \<in> set (closeRun (endTimeMs result)
                 (foldl (populateItem noSep ents) (newBuilder segs) (items a))).
               seg_attendee seg \<noteq> None"
    by (intro attendeeInv_closeRun attendeeInv_foldl)
  then show ?thesis by (simp add: populatePartialTranscriptSegmentsFromResult_def a)
qed

lemma populate_error:
  "populatePartialTranscriptSegmentsFromResult noSep ents segs result = Inl e \<Longrightarrow>
     e = TypeError \<and> alternatives result = []"
  by (auto simp: populatePartialTranscriptSegmentsFromResult_def split: list.splits)

lemma collectSegments_total:
  assumes "\<forall>r \<in> set results. alternatives r \<noteq> []"
    and "\<forall>seg \<in> set segs. seg_attendee seg \<noteq> None"
  shows "\<exists>out. collectSegments noSep ents segs results = Inr out
           \<and> (\<forall>seg \<in> set out. seg_attendee seg \<noteq> None)"
  using assms
proof (induction results arbitrary: segs)
  case Nil
  then show ?case by simp
next
  case (Cons r rs)
  from populate_total [of r segs noSep ents] Cons.prems obtain out where
    o: "populatePartialTranscriptSegmentsFromResult noSep ents segs r = Inr out"
       "\<forall>seg \<in> set out. seg_attendee seg \<noteq> None"
    by auto
  from Cons.IH [OF _ o(2)] Cons.prems(1) o(1) show ?case by simp
qed

lemma collectSegments_throws:
  assumes "r \<in> set results" and "alternatives r = []"
  shows "collectSegments noSep ents segs results = Inl TypeError"
  using assms
proof (induction results arbitrary: segs)
  case Nil
  then show ?case by simp
next
  case (Cons x xs)
  show ?case
  proof (cases "populatePartialTranscriptSegmentsFromResult noSep ents segs x")
    case (Inl e)
    then show ?thesis using populate_error [OF Inl] by simp
  next
    case (Inr out)
    then have "alternatives x \<noteq> []"
      by (auto simp: populatePartialTranscriptSegmentsFromResult_def)
    then have "r \<in> set xs" using Cons.prems by auto
    from Cons.IH [OF this Cons.prems(2)] Inr show ?thesis by simp
  qed
qed

lemma renderSegments_total:
  assumes "renderingOk r" and "\<forall>seg \<in> set segs. seg_attendee seg \<noteq> None"
  shows "fst (renderSegments r segs) = None"
  using assms
proof (induction segs arbitrary: r)
  case Nil
  then show ?case by simp
next
  case (Cons seg rest)
  from Cons.prems(2) obtain a where a: "seg_attendee seg = Some a" by auto
  from renderSegment_step [OF Cons.prems(1) a] obtain r' where
    "renderSegment r seg = Inr r'" "renderingOk r'" by blast
  with Cons.IH [of r'] Cons.prems(2) show ?case by simp
qed

lemma partialTranscriptSegments_cases:
  "(\<exists>r \<in> set (jsmap_values m). alternatives r = []) \<Longrightarrow>
     partialTranscriptSegments noSep ents m = Inl TypeError"
  "(\<forall>r \<in> set (jsmap_values m). alternatives r \<noteq> []) \<Longrightarrow>
     \<exists>out. partialTranscriptSegments noSep ents m = Inr out
        \<and> (\<forall>seg \<in> set out. seg_attendee seg \<noteq> None)"
proof -
  show "(\<exists>r \<in> set (jsmap_values m). alternatives r = []) \<Longrightarrow>
     partialTranscriptSegments noSep ents m = Inl TypeError"
    by (auto simp: partialTranscriptSegments_def collectSegments_throws)
  assume "\<forall>r \<in> set (jsmap_values m). alternatives r \<noteq> []"
  from collectSegments_total [OF this, of "[]" noSep ents]
  show "\<exists>out. partialTranscriptSegments noSep ents m = Inr out
        \<and> (\<forall>seg \<in> set out. seg_attendee seg \<noteq> None)"
    by (auto simp: partialTranscriptSegments_def)
qed

lemma updatePartialTranscriptDiv_throws:
  assumes "partialTranscriptDiv s \<noteq> None"
  shows "fst (updatePartialTranscriptDiv s) =
           (if \<exists>r \<in> set (jsmap_values (partialTranscriptResultMap s)). alternatives r = []
            then Some TypeError else None)"
proof (cases "\<exists>r \<in> set (jsmap_values (partialTranscriptResultMap s)). alternatives r = []")
  case True
  from partialTranscriptSegments_cases(1) [OF True] assms True show ?thesis
    by (auto simp: updatePartialTranscriptDiv_def)
next
  case False
  then have "\<forall>r \<in> set (jsmap_values (partialTranscriptResultMap s)). alternatives r \<noteq> []"
    by blast
  from partialTranscriptSegments_cases(2) [OF this] obtain out where
    o: "partialTranscriptSegments (noWordSeparatorForTranscription s) (transcriptEntitySet s)
          (partialTranscriptResultMap s) = Inr out"
       "\<forall>seg \<in> set out. seg_attendee seg \<noteq> None"
    by blast
  have "fst (renderSegments \<lparr>blocks = [], speakerToTranscriptSpanMap = []\<rparr> out) = None"
    by (rule renderSegments_total [OF renderingOk_empty o(2)])
  then show ?thesis using assms False o(1)
    by (auto simp: updatePartialTranscriptDiv_def split: prod.splits)
qed

lemma renderPartialTranscriptResults_throws:
  "fst (renderPartialTranscriptResults s) =
     (if \<exists>r \<in> set (jsmap_values (partialTranscriptResultMap s)). alternatives r = []
      then Some TypeError else None)"
proof (cases "partialTranscriptDiv s")
  case (Some d)
  then show ?thesis
    using updatePartialTranscriptDiv_throws [of s]
    by (simp add: renderPartialTranscriptResults_def)
next
  case None
  let ?s = "s\<lparr>divs := divs s @ [[]], partialTranscriptDiv := Some (length (divs s))\<rparr>"
  have u: "fst (updatePartialTranscriptDiv ?s) =
           (if \<exists>r \<in> set (jsmap_values (partialTranscriptResultMap s)). alternatives r = []
            then Some TypeError else None)"
    using updatePartialTranscriptDiv_throws [of ?s] by simp
  show ?thesis
  proof (cases "\<exists>r \<in> set (jsmap_values (partialTranscriptResultMap s)). alternatives r = []")
    case True
    with u have "fst (updatePartialTranscriptDiv ?s) = Some TypeError" by simp
    then show ?thesis using None True
      by (cases "updatePartialTranscriptDiv ?s")
        (simp add: renderPartialTranscriptResults_def Let_def)
  next
    case False
    with u have "fst (updatePartialTranscriptDiv ?s) = None" by simp
    then show ?thesis using None False
      by (cases "updatePartialTranscriptDiv ?s")
        (simp add: renderPartialTranscriptResults_def Let_def)
  qed
qed

lemma jsmap_set_entry: "(k, v) \<in> set (jsmap_set k v m)"
  by (induction m) auto

lemma jsmap_set_value: "v \<in> set (map snd (jsmap_set k v m))"
  using jsmap_set_entry [of k v m] by (simp add: rev_image_eqI)

lemma processResult_throws:
  "fst (processResult result s) =
     (if \<exists>r \<in> set (resultsAfterUpsert result s). alternatives r = []
      then Some TypeError else None)"
proof -
  define s1 where "s1 = (if noSeparatorLanguage (languageCode result)
                         then s\<lparr>noWordSeparatorForTranscription := True\<rparr> else s)"
  have m1: "partialTranscriptResultMap s1 = partialTranscriptResultMap s"
    by (simp add: s1_def)
  have unfold: "processResult result s =
      (case addEntities result s1 of
         Inl e \<Rightarrow> (Some e, s1)
       | Inr s2 \<Rightarrow>
          (case renderPartialTranscriptResults (upsert result s2) of
             (Some e, s3) \<Rightarrow> (Some e, s3)
           | (None, s3) \<Rightarrow>
               if isPartial result then (None, s3)
               else (None, finalizeResult result s3)))"
    unfolding processResult_def s1_def Let_def by (rule refl)
  have mem: "result \<in> set (resultsAfterUpsert result s)"
    using jsmap_set_value [of result "resultId result" "partialTranscriptResultMap s"]
    by (simp add: resultsAfterUpsert_def jsmap_values_def)
  show ?thesis
  proof (cases "addEntities result s1")
    case (Inl e)
    then have "e = TypeError" "alternatives result = []"
      by (auto simp: addEntities_def split: if_splits list.splits option.splits)
    then show ?thesis using Inl mem by (auto simp: unfold)
  next
    case (Inr s2)
    have m: "partialTranscriptResultMap (upsert result s2) =
               jsmap_set (resultId result) result (partialTranscriptResultMap s)"
      using addEntities_fields(2) [OF Inr] m1 by (simp add: upsert_def)
    have r: "fst (renderPartialTranscriptResults (upsert result s2)) =
       (if \<exists>r \<in> set (resultsAfterUpsert result s). alternatives r = []
        then Some TypeError else None)"
      by (simp add: renderPartialTranscriptResults_throws m resultsAfterUpsert_def)
    show ?thesis
    proof (cases "renderPartialTranscriptResults (upsert result s2)")
      case (Pair e s3)
      with r show ?thesis by (cases e) (simp_all add: unfold Inr)
    qed
  qed
qed

lemma populate_empty_items:
  "alternatives result = a # others \<Longrightarrow> items a = [] \<Longrightarrow>
     populatePartialTranscriptSegmentsFromResult noSep ents segs result = Inr segs"
  by (simp add: populatePartialTranscriptSegmentsFromResult_def closeRun_def newBuilder_def)

text \<open>
  Claim C3, as the code has it. A result whose best alternative has an empty item list
  adds no segment and its segment building does not throw. A call of the loop body
  throws, a \<^verbatim>\<open>TypeError\<close>, exactly when the result or another result still in the
  result map has no alternative at all; the remaining results of the batch are then not
  processed.
\<close>

theorem C3_malformed_results:
  "(alternatives result = a # others \<and> items a = [] \<longrightarrow>
      populatePartialTranscriptSegmentsFromResult noSep ents segs result = Inr segs)
   \<and> (alternatives result = [] \<longrightarrow>
      populatePartialTranscriptSegmentsFromResult noSep ents segs result = Inl TypeError)
   \<and> fst (processResult result s) =
       (if \<exists>r \<in> set (resultsAfterUpsert result s). alternatives r = []
        then Some TypeError else None)
   \<and> (alternatives result = [] \<longrightarrow>
        fst (processResult result s) = Some TypeError
        \<and> processResults (result # rest) s = processResult result s)"
proof -
  have mem: "result \<in> set (resultsAfterUpsert result s)"
    using jsmap_set_value [of result "resultId result" "partialTranscriptResultMap s"]
    by (simp add: resultsAfterUpsert_def jsmap_values_def)
  have 1: "fst (processResult result s) = Some TypeError" if "alternatives result = []"
    using that mem by (auto simp: processResult_throws)
  have 2: "processResults (result # rest) s = processResult result s"
    if "alternatives result = []"
    using 1 [OF that] by (cases "processResult result s") auto
  show ?thesis
    using 1 2 processResult_throws [of result s] populate_empty_items [of result a others]
    by (auto simp: populatePartialTranscriptSegmentsFromResult_def)
qed

theorem C3_malformed_results_witness:
  "alternatives emptyItems = [\<lparr>items = [], entities = None\<rparr>]
   \<and> items \<lparr>items = [], entities = None\<rparr> = []
   \<and> populatePartialTranscriptSegmentsFromResult False {} [] emptyItems = Inr []
   \<and> alternatives badPartial = []
   \<and> fst (processResult badPartial initialState) = Some TypeError
   \<and> processResults [badPartial, r1Partial] initialState = processResult badPartial initialState"
proof -
  have h1: "alternatives emptyItems = \<lparr>items = [], entities = None\<rparr> # []"
    by (simp add: emptyItems_def mkResult_def)
  have h2: "items \<lparr>items = [], entities = None\<rparr> = []" by simp
  have h3: "alternatives badPartial = []" by (simp add: badPartial_def)
  from C3_malformed_results [of emptyItems "\<lparr>items = [], entities = None\<rparr>" "[]" False "{}" "[]"]
    h1 h2
  have a: "populatePartialTranscriptSegmentsFromResult False {} [] emptyItems = Inr []"
    by blast
  from C3_malformed_results [of badPartial _ _ _ _ _ initialState "[r1Partial]"] h3
  have b: "fst (processResult badPartial initialState) = Some TypeError
     \<and> processResults [badPartial, r1Partial] initialState = processResult badPartial initialState"
    by blast
  from a b h1 h2 h3 show ?thesis by simp
qed

text \<open>
  Against claim C3 as stated: a batch that starts with a result without alternatives makes
  the handler throw a \<^verbatim>\<open>TypeError\<close>, and the well-formed result r1 that follows it in
  the batch is never stored.
\<close>

theorem C3_empty_alternatives_abort_batch:
  "fst (transcriptEventHandler (Transcript [badPartial, r1Partial]) initialState)
     = Some TypeError
   \<and> jsmap_keys (partialTranscriptResultMap
        (snd (transcriptEventHandler (Transcript [badPartial, r1Partial]) initialState)))
       = [''bad'']"
  by (simp add: handler_evaluation badPartial_def r1Partial_def)

section \<open>Stop and failure\<close>

lemma addEntities_rendering_fields:
  assumes "addEntities result s = Inr s'"
  shows "partialTranscriptDiv s' = partialTranscriptDiv s"
    and "divs s' = divs s"
    and "transcriptContainerDiv s' = transcriptContainerDiv s"
  using assms
  by (auto simp: addEntities_def split: if_splits list.splits option.splits)

lemma fresh_div:
  assumes none: "partialTranscriptDiv t = None" and run: "processResult result t = (None, t')"
  shows "transcriptContainerDiv t' =
           transcriptContainerDiv t @ [PartialTranscriptDiv (length (divs t))]
         \<and> length (divs t') = Suc (length (divs t))"
proof -
  define s1 where "s1 = (if noSeparatorLanguage (languageCode result)
                         then t\<lparr>noWordSeparatorForTranscription := True\<rparr> else t)"
  have f1: "partialTranscriptDiv s1 = None" "divs s1 = divs t"
    "transcriptContainerDiv s1 = transcriptContainerDiv t"
    using none by (simp_all add: s1_def)
  have unfold: "processResult result t =
      (case addEntities result s1 of
         Inl e \<Rightarrow> (Some e, s1)
       | Inr s2 \<Rightarrow>
          (case renderPartialTranscriptResults (upsert result s2) of
             (Some e, s3) \<Rightarrow> (Some e, s3)
           | (None, s3) \<Rightarrow>
               if isPartial result then (None, s3)
               else (None, finalizeResult result s3)))"
    unfolding processResult_def s1_def Let_def by (rule refl)
  from run obtain s2 s3 where
    a: "addEntities result s1 = Inr s2" and
    r: "renderPartialTranscriptResults (upsert result s2) = (None, s3)" and
    f: "t' = (if isPartial result then s3 else finalizeResult result s3)"
    unfolding unfold by (auto split: sum.splits prod.splits option.splits if_splits)
  let ?u = "upsert result s2"
  have f2: "partialTranscriptDiv ?u = None" "divs ?u = divs t"
    "transcriptContainerDiv ?u = transcriptContainerDiv t"
    using addEntities_rendering_fields [OF a] f1 by (simp_all add: upsert_def)
  let ?n = "?u\<lparr>divs := divs ?u @ [[]], partialTranscriptDiv := Some (length (divs ?u))\<rparr>"
  from r f2(1) obtain s4 where
    u: "updatePartialTranscriptDiv ?n = (None, s4)" and
    s3: "s3 = s4\<lparr>transcriptContainerDiv :=
                 transcriptContainerDiv s4 @ [PartialTranscriptDiv (length (divs ?u))]\<rparr>"
    by (auto simp: renderPartialTranscriptResults_def Let_def
        split: prod.splits option.splits)
  have "transcriptContainerDiv s4 = transcriptContainerDiv t"
    "length (divs s4) = Suc (length (divs t))"
    using updatePartialTranscriptDiv_fields(7,8) [OF u] f2 by simp_all
  then have "transcriptContainerDiv s3 =
           transcriptContainerDiv t @ [PartialTranscriptDiv (length (divs t))]"
    "length (divs s3) = Suc (length (divs t))"
    using s3 f2 by simp_all
  then show ?thesis using f by (simp add: finalizeResult_def Let_def)
qed

lemma entity_set_empty_without_throw:
  "noThrow events initialState \<Longrightarrow>
     transcriptEntitySet (handleEvents events initialState) = {}"
  using storeInv_handleEvents [OF storeInv_initialState] by (simp add: storeInv_def)

text \<open>
  Claim C4, as the code has it. In every state, a STOPPED or FAILED status is handled
  without a throw; afterwards the no-separator flag is false, both maps are empty and the
  current rendering block is forgotten, so that the first result of the next batch that
  is processed without a throw creates a new element and appends it to the transcript
  container. The entity set is not touched: it is what it was before (empty unless an
  earlier call threw, by \<open>entity_set_empty_without_throw\<close>).
\<close>

theorem C4_stop_resets_state:
  assumes "status_type status = STOPPED \<or> status_type status = FAILED"
    and "transcriptEventHandler (Status status) s = (e, s')"
  shows "e = None
     \<and> \<not> noWordSeparatorForTranscription s'
     \<and> partialTranscriptResultTimeMap s' = []
     \<and> partialTranscriptResultMap s' = []
     \<and> partialTranscriptDiv s' = None
     \<and> transcriptEntitySet s' = transcriptEntitySet s
     \<and> (\<forall>result s''.
           processResult result (s'\<lparr>enableLiveTranscription := True\<rparr>) = (None, s'') \<longrightarrow>
             transcriptContainerDiv s'' =
               transcriptContainerDiv s' @ [PartialTranscriptDiv (length (divs s'))]
             \<and> length (divs s'') = Suc (length (divs s')))"
proof -
  have st: "status_type status \<noteq> STARTED" using assms(1) by auto
  have s': "e = None"
    "s' = s\<lparr>enableLiveTranscription := False,
            transcriptContainerDiv := transcriptContainerDiv s @ [StatusDiv status],
            noWordSeparatorForTranscription := False,
            partialTranscriptResultTimeMap := [],
            partialTranscriptDiv := None,
            partialTranscriptResultMap := []\<rparr>"
    using assms st
    by (auto simp: transcriptEventHandler_def processStatus_def Let_def split: if_splits)
  have none: "partialTranscriptDiv (s'\<lparr>enableLiveTranscription := True\<rparr>) = None"
    by (simp add: s'(2))
  have "transcriptContainerDiv s'' =
               transcriptContainerDiv s' @ [PartialTranscriptDiv (length (divs s'))]
             \<and> length (divs s'') = Suc (length (divs s'))"
    if "processResult result (s'\<lparr>enableLiveTranscription := True\<rparr>) = (None, s'')"
    for result s''
    using fresh_div [OF none that] by simp
  then show ?thesis using s'(1) by (simp add: s'(2))
qed

theorem C4_stop_resets_state_witness:
  "(status_type stopped = STOPPED \<or> status_type stopped = FAILED)
   \<and> transcriptEventHandler (Status stopped)
        (handleEvents [Transcript [r1Partial]] initialState)
       = (None, snd (transcriptEventHandler (Status stopped)
                       (handleEvents [Transcript [r1Partial]] initialState)))
   \<and> partialTranscriptResultMap (snd (transcriptEventHandler (Status stopped)
        (handleEvents [Transcript [r1Partial]] initialState))) = []"
proof -
  let ?s = "handleEvents [Transcript [r1Partial]] initialState"
  have h1: "status_type stopped = STOPPED \<or> status_type stopped = FAILED"
    by (simp add: stopped_def)
  have h2: "transcriptEventHandler (Status stopped) ?s
      = (fst (transcriptEventHandler (Status stopped) ?s),
         snd (transcriptEventHandler (Status stopped) ?s))"
    by simp
  from C4_stop_resets_state [OF h1 h2] h1 show ?thesis by (simp add: prod_eq_iff)
qed

text \<open>
  Against claim C4 as stated: a partial result without alternatives makes every later
  rendering throw; the finalized result r2 then adds its entity token and throws before
  the set is cleared. Transcription is enabled in that state, and the STOPPED status that
  follows leaves the token in the entity set.
\<close>

theorem C4_entity_set_survives_stop:
  "enableLiveTranscription
     (handleEvents [Transcript [badPartial], Transcript [johnFinal]] initialState)
   \<and> status_type stopped = STOPPED
   \<and> transcriptEntitySet (snd (transcriptEventHandler (Status stopped)
        (handleEvents [Transcript [badPartial], Transcript [johnFinal]] initialState)))
       = {''John''}"
  by (simp add: handler_evaluation badPartial_def johnFinal_def stopped_def)

section \<open>Invariants that hold after a throw as well\<close>

lemma renderingOk_renderSegments:
  "renderingOk r \<Longrightarrow> renderingOk (snd (renderSegments r segs))"
proof (induction segs arbitrary: r)
  case Nil
  then show ?case by simp
next
  case (Cons seg rest)
  show ?case
  proof (cases "seg_attendee seg")
    case None
    then show ?thesis using Cons.prems by (simp add: renderSegment_def)
  next
    case (Some a)
    from renderSegment_step [OF Cons.prems Some] obtain r' where
      "renderSegment r seg = Inr r'" "renderingOk r'" by blast
    with Cons.IH [of r'] show ?thesis by simp
  qed
qed

lemma distinct_keys_processResult:
  assumes "distinct (jsmap_keys (partialTranscriptResultTimeMap s))"
  shows "distinct (jsmap_keys (partialTranscriptResultTimeMap (snd (processResult result s))))"
proof -
  define s1 where "s1 = (if noSeparatorLanguage (languageCode result)
                         then s\<lparr>noWordSeparatorForTranscription := True\<rparr> else s)"
  have t1: "partialTranscriptResultTimeMap s1 = partialTranscriptResultTimeMap s"
    by (simp add: s1_def)
  have unfold: "processResult result s =
      (case addEntities result s1 of
         Inl e \<Rightarrow> (Some e, s1)
       | Inr s2 \<Rightarrow>
          (case renderPartialTranscriptResults (upsert result s2) of
             (Some e, s3) \<Rightarrow> (Some e, s3)
           | (None, s3) \<Rightarrow>
               if isPartial result then (None, s3)
               else (None, finalizeResult result s3)))"
    unfolding processResult_def s1_def Let_def by (rule refl)
  show ?thesis
  proof (cases "addEntities result s1")
    case (Inl e)
    then show ?thesis using assms t1 by (simp add: unfold)
  next
    case (Inr s2)
    obtain e s3 where r: "renderPartialTranscriptResults (upsert result s2) = (e, s3)"
      by (cases "renderPartialTranscriptResults (upsert result s2)") auto
    have t3: "partialTranscriptResultTimeMap s3 =
        jsmap_set (resultId result) (endTimeMs result) (partialTranscriptResultTimeMap s)"
      using renderPartialTranscriptResults_fields(1) [OF r] addEntities_fields(1) [OF Inr] t1
      by (simp add: upsert_def)
    have d3: "distinct (map fst (partialTranscriptResultTimeMap s3))"
      using assms by (simp add: t3 jsmap_keys_def jsmap_set_distinct)
    have d4: "distinct (map fst (partialTranscriptResultTimeMap (finalizeResult result s3)))"
      using d3 by (simp add: finalizeResult_def Let_def jsmap_delete_distinct evictOlder_distinct)
    show ?thesis using d3 d4 by (cases e) (simp_all add: unfold Inr r jsmap_keys_def)
  qed
qed

lemma distinct_keys_processResults:
  "distinct (jsmap_keys (partialTranscriptResultTimeMap s)) \<Longrightarrow>
   distinct (jsmap_keys (partialTranscriptResultTimeMap (snd (processResults results s))))"
proof (induction results arbitrary: s)
  case Nil
  then show ?case by simp
next
  case (Cons r rs)
  obtain e s1 where p: "processResult r s = (e, s1)" by (cases "processResult r s") auto
  have d: "distinct (jsmap_keys (partialTranscriptResultTimeMap s1))"
    using distinct_keys_processResult [OF Cons.prems, of r] p by simp
  show ?case using d Cons.IH [OF d] by (cases e) (simp_all add: p)
qed

lemma distinct_keys_handler:
  assumes "distinct (jsmap_keys (partialTranscriptResultTimeMap s))"
  shows "distinct (jsmap_keys (partialTranscriptResultTimeMap
           (snd (transcriptEventHandler event s))))"
proof (cases event)
  case (Status status)
  then show ?thesis using assms
    by (auto simp: transcriptEventHandler_def processStatus_def Let_def jsmap_keys_def
        split: sum.splits)
next
  case (Transcript results)
  let ?s0 = "if \<not> enableLiveTranscription s then s\<lparr>enableLiveTranscription := True\<rparr> else s"
  have "distinct (jsmap_keys (partialTranscriptResultTimeMap ?s0))" using assms by simp
  from distinct_keys_processResults [OF this, of results] Transcript show ?thesis
    by (simp add: transcriptEventHandler_def Let_def)
qed

text \<open>The keys of the time map are distinct in every state the handler can reach.\<close>

lemma distinct_keys_handleEvents:
  "distinct (jsmap_keys (partialTranscriptResultTimeMap s)) \<Longrightarrow>
   distinct (jsmap_keys (partialTranscriptResultTimeMap (handleEvents events s)))"
  by (induction events arbitrary: s)
     (simp_all add: handleEvents_def distinct_keys_handler)

lemma distinct_keys_reachable:
  "distinct (jsmap_keys (partialTranscriptResultTimeMap (handleEvents events initialState)))"
  by (rule distinct_keys_handleEvents) (simp add: initialState_def jsmap_keys_def)

text \<open>The flag follows the language code of a result before that result is rendered.\<close>

lemma result_language_sets_flag:
  assumes "noSeparatorLanguage (languageCode result)"
  shows "noWordSeparatorForTranscription (snd (processResult result s))"
proof -
  let ?s1 = "s\<lparr>noWordSeparatorForTranscription := True\<rparr>"
  have unfold: "processResult result s =
      (case addEntities result ?s1 of
         Inl e \<Rightarrow> (Some e, ?s1)
       | Inr s2 \<Rightarrow>
          (case renderPartialTranscriptResults (upsert result s2) of
             (Some e, s3) \<Rightarrow> (Some e, s3)
           | (None, s3) \<Rightarrow>
               if isPartial result then (None, s3)
               else (None, finalizeResult result s3)))"
    using assms by (simp add: processResult_def Let_def)
  show ?thesis
  proof (cases "addEntities result ?s1")
    case (Inl e)
    then show ?thesis by (simp add: unfold)
  next
    case (Inr s2)
    then have f2: "noWordSeparatorForTranscription s2"
      by (auto simp: addEntities_def split: if_splits list.splits option.splits)
    obtain e s3 where r: "renderPartialTranscriptResults (upsert result s2) = (e, s3)"
      by (cases "renderPartialTranscriptResults (upsert result s2)") auto
    have f3: "noWordSeparatorForTranscription s3"
      using renderPartialTranscriptResults_fields(4) [OF r] f2 by (simp add: upsert_def)
    then have "noWordSeparatorForTranscription (finalizeResult result s3)"
      by (simp add: finalizeResult_def Let_def)
    with f3 show ?thesis by (cases e) (simp_all add: unfold Inr r)
  qed
qed

lemma no_separator_languages:
  "noSeparatorLanguage (Some ''ja-JP'')" "noSeparatorLanguage (Some ''zh-CN'')"
  "\<not> noSeparatorLanguage (Some ''en-US'')" "\<not> noSeparatorLanguage None"
  by (simp_all add: noSeparatorLanguage_def LANGUAGES_NO_WORD_SEPARATOR_def)

lemma started_language_sets_flag:
  assumes "status_type status = STARTED"
    and "startedLanguageCode (transcriptionConfiguration status) = Inr code"
    and "noSeparatorLanguage code"
  shows "transcriptEventHandler (Status status) s =
           (None, s\<lparr>enableLiveTranscription := True,
                     transcriptContainerDiv := transcriptContainerDiv s @ [StatusDiv status],
                     noWordSeparatorForTranscription := True\<rparr>)"
  using assms by (simp add: transcriptEventHandler_def processStatus_def Let_def)

section \<open>Re-upserting through the handler\<close>

lemma updatePartialTranscriptDiv_timeMap:
  "updatePartialTranscriptDiv (s\<lparr>partialTranscriptResultTimeMap := m\<rparr>) =
     (fst (updatePartialTranscriptDiv s),
      (snd (updatePartialTranscriptDiv s))\<lparr>partialTranscriptResultTimeMap := m\<rparr>)"
  by (simp add: updatePartialTranscriptDiv_def split: option.split sum.split prod.split)

lemma update_needs_element:
  "updatePartialTranscriptDiv s = (None, s') \<Longrightarrow> partialTranscriptDiv s \<noteq> None"
  by (cases "partialTranscriptDiv s") (simp_all add: updatePartialTranscriptDiv_def)

lemma flag_already_set:
  "noWordSeparatorForTranscription s \<Longrightarrow> s\<lparr>noWordSeparatorForTranscription := True\<rparr> = s"
  by (cases s) simp

lemma upsert_present:
  "jsmap_get (partialTranscriptResultMap s) (resultId result) = Some result \<Longrightarrow>
   upsert result s =
     s\<lparr>partialTranscriptResultTimeMap :=
         jsmap_set (resultId result) (endTimeMs result) (partialTranscriptResultTimeMap s)\<rparr>"
  by (cases s) (simp add: upsert_def jsmap_get_def jsmap_set_same)

lemma finalizeResult_rendering:
  "divs (finalizeResult result s) = divs s"
  "transcriptContainerDiv (finalizeResult result s) = transcriptContainerDiv s"
  by (simp_all add: finalizeResult_def Let_def)

lemma reupsert_current_rendering:
  assumes "jsmap_get (partialTranscriptResultMap s) (resultId result) = Some result"
    and "noSeparatorLanguage (languageCode result) \<longrightarrow> noWordSeparatorForTranscription s"
    and "addEntities result s = Inr s2"
    and "updatePartialTranscriptDiv s2 = (None, s2)"
  shows "fst (processResult result s) = None
     \<and> divs (snd (processResult result s)) = divs s
     \<and> transcriptContainerDiv (snd (processResult result s)) = transcriptContainerDiv s
     \<and> (isPartial result \<longrightarrow>
          processResult result s =
            (None, s\<lparr>partialTranscriptResultTimeMap :=
                        jsmap_set (resultId result) (endTimeMs result)
                          (partialTranscriptResultTimeMap s)\<rparr>))"
proof -
  let ?tm = "jsmap_set (resultId result) (endTimeMs result) (partialTranscriptResultTimeMap s2)"
  have s1: "(if noSeparatorLanguage (languageCode result)
             then s\<lparr>noWordSeparatorForTranscription := True\<rparr> else s) = s"
    using assms(2) by (simp add: flag_already_set)
  have present2: "jsmap_get (partialTranscriptResultMap s2) (resultId result) = Some result"
    using addEntities_fields(2) [OF assms(3)] assms(1) by simp
  have up: "upsert result s2 = s2\<lparr>partialTranscriptResultTimeMap := ?tm\<rparr>"
    by (rule upsert_present [OF present2])
  have d2: "partialTranscriptDiv s2 \<noteq> None"
    by (rule update_needs_element [OF assms(4)])
  have u: "updatePartialTranscriptDiv (upsert result s2) = (None, upsert result s2)"
    by (simp add: up updatePartialTranscriptDiv_timeMap assms(4))
  have r: "renderPartialTranscriptResults (upsert result s2) = (None, upsert result s2)"
    using d2 u by (auto simp: renderPartialTranscriptResults_def up)
  have p: "processResult result s =
      (None, if isPartial result then upsert result s2
             else finalizeResult result (upsert result s2))"
    by (simp add: processResult_def Let_def s1 assms(3) r)
  have same: "divs s2 = divs s" "transcriptContainerDiv s2 = transcriptContainerDiv s"
    using addEntities_rendering_fields [OF assms(3)] by simp_all
  have partial: "isPartial result \<Longrightarrow> s2 = s"
    using addEntities_fields(3) [OF assms(3)] .
  have A: "divs (upsert result s2) = divs s"
    "transcriptContainerDiv (upsert result s2) = transcriptContainerDiv s"
    using same by (simp_all add: up)
  have C: "upsert result s2 =
      s\<lparr>partialTranscriptResultTimeMap :=
          jsmap_set (resultId result) (endTimeMs result) (partialTranscriptResultTimeMap s)\<rparr>"
    if "isPartial result"
    using up partial [OF that] by simp
  show ?thesis
    using C by (simp add: p A finalizeResult_rendering)
qed

lemma render_is_current:
  assumes "renderPartialTranscriptResults s = (None, s')"
  shows "updatePartialTranscriptDiv s' = (None, s')"
proof (cases "partialTranscriptDiv s")
  case (Some d)
  then have u: "updatePartialTranscriptDiv s = (None, s')"
    using assms by (simp add: renderPartialTranscriptResults_def)
  then show ?thesis using Some
    by (auto simp: updatePartialTranscriptDiv_def split: sum.splits prod.splits)
next
  case None
  let ?n = "s\<lparr>divs := divs s @ [[]], partialTranscriptDiv := Some (length (divs s))\<rparr>"
  from assms None obtain s4 where
    u: "updatePartialTranscriptDiv ?n = (None, s4)" and
    s': "s' = s4\<lparr>transcriptContainerDiv :=
                 transcriptContainerDiv s4 @ [PartialTranscriptDiv (length (divs s))]\<rparr>"
    by (auto simp: renderPartialTranscriptResults_def Let_def
        split: prod.splits option.splits)
  from u show ?thesis unfolding s'
    by (auto simp: updatePartialTranscriptDiv_def split: sum.splits prod.splits)
qed

text \<open>A partial result sent again right after it was processed changes nothing at all.\<close>

lemma reprocess_partial_result:
  assumes "isPartial result" and "processResult result s = (None, s')"
  shows "processResult result s' = (None, s')"
proof -
  define s1 where "s1 = (if noSeparatorLanguage (languageCode result)
                         then s\<lparr>noWordSeparatorForTranscription := True\<rparr> else s)"
  have a: "addEntities result s1 = Inr s1" using assms(1) by (simp add: addEntities_def)
  have unfold: "processResult result s =
      (case addEntities result s1 of
         Inl e \<Rightarrow> (Some e, s1)
       | Inr s2 \<Rightarrow>
          (case renderPartialTranscriptResults (upsert result s2) of
             (Some e, s3) \<Rightarrow> (Some e, s3)
           | (None, s3) \<Rightarrow>
               if isPartial result then (None, s3)
               else (None, finalizeResult result s3)))"
    unfolding processResult_def s1_def Let_def by (rule refl)
  from assms have r: "renderPartialTranscriptResults (upsert result s1) = (None, s')"
    by (auto simp: unfold a split: prod.splits option.splits)
  note f = renderPartialTranscriptResults_fields [OF r]
  have current: "updatePartialTranscriptDiv s' = (None, s')" by (rule render_is_current [OF r])
  have present: "jsmap_get (partialTranscriptResultMap s') (resultId result) = Some result"
    by (simp add: f(2) upsert_def jsmap_get_def map_of_jsmap_set)
  have tracked: "map_of (partialTranscriptResultTimeMap s') (resultId result)
                   = Some (endTimeMs result)"
    by (simp add: f(1) upsert_def map_of_jsmap_set)
  have flag: "noSeparatorLanguage (languageCode result) \<longrightarrow> noWordSeparatorForTranscription s'"
    by (simp add: f(4) upsert_def s1_def)
  have s1': "(if noSeparatorLanguage (languageCode result)
             then s'\<lparr>noWordSeparatorForTranscription := True\<rparr> else s') = s'"
    using flag by (simp add: flag_already_set)
  have up: "upsert result s' = s'"
    using upsert_present [OF present] jsmap_set_same [OF tracked] by (cases s') simp
  have d: "partialTranscriptDiv s' \<noteq> None"
    by (rule update_needs_element [OF current])
  have "renderPartialTranscriptResults (upsert result s') = (None, s')"
    using d current by (auto simp: renderPartialTranscriptResults_def up)
  then show ?thesis
    using assms(1) by (simp add: processResult_def Let_def s1' addEntities_def)
qed

text \<open>
  Claim C10, as the code has it. Let a result be held in the result map under its
  identifier, let the no-separator flag agree with its language code, and let the element
  on screen show what a pass over the state gives with the entity set the handler uses
  for this result (the current set, with the result's own entity tokens when it is
  finalized). Then processing the identical result again does not throw and leaves the
  rendered blocks and the transcript container as they were. In particular a partial
  result that is sent again right after it was processed leaves the whole state as it
  is. The condition on the element does not hold after a finalized result with entities,
  whose highlight was rendered before the entity set was emptied.
\<close>

theorem C10_reupsert_keeps_current_rendering:
  "(jsmap_get (partialTranscriptResultMap s) (resultId result) = Some result
      \<and> (noSeparatorLanguage (languageCode result) \<longrightarrow> noWordSeparatorForTranscription s)
      \<and> addEntities result s = Inr s2
      \<and> updatePartialTranscriptDiv s2 = (None, s2)
    \<longrightarrow> fst (processResult result s) = None
        \<and> divs (snd (processResult result s)) = divs s
        \<and> transcriptContainerDiv (snd (processResult result s)) = transcriptContainerDiv s)
   \<and> (isPartial result \<and> processResult result s0 = (None, s)
    \<longrightarrow> processResult result s = (None, s))"
  using reupsert_current_rendering [of s result s2] reprocess_partial_result [of result s0 s]
  by blast

theorem C10_reupsert_keeps_current_rendering_witness:
  "jsmap_get (partialTranscriptResultMap (handleEvents [Transcript [r1Partial]] initialState))
     (resultId r1Partial) = Some r1Partial
   \<and> addEntities r1Partial (handleEvents [Transcript [r1Partial]] initialState)
       = Inr (handleEvents [Transcript [r1Partial]] initialState)
   \<and> updatePartialTranscriptDiv (handleEvents [Transcript [r1Partial]] initialState)
       = (None, handleEvents [Transcript [r1Partial]] initialState)
   \<and> isPartial r1Partial
   \<and> processResult r1Partial (initialState\<lparr>enableLiveTranscription := True\<rparr>)
       = (None, handleEvents [Transcript [r1Partial]] initialState)
   \<and> divs (snd (processResult r1Partial (handleEvents [Transcript [r1Partial]] initialState)))
       = divs (handleEvents [Transcript [r1Partial]] initialState)
   \<and> processResult r1Partial (handleEvents [Transcript [r1Partial]] initialState)
       = (None, handleEvents [Transcript [r1Partial]] initialState)"
proof -
  let ?s = "handleEvents [Transcript [r1Partial]] initialState"
  have h1: "jsmap_get (partialTranscriptResultMap ?s) (resultId r1Partial) = Some r1Partial"
    by (simp add: handler_evaluation r1Partial_def)
  have h2: "noSeparatorLanguage (languageCode r1Partial) \<longrightarrow>
              noWordSeparatorForTranscription ?s"
    by (simp add: noSeparatorLanguage_def r1Partial_def mkResult_def)
  have p: "isPartial r1Partial" by (simp add: r1Partial_def mkResult_def)
  have h3: "addEntities r1Partial ?s = Inr ?s" using p by (simp add: addEntities_def)
  have h4: "updatePartialTranscriptDiv ?s = (None, ?s)"
    by (simp add: handler_evaluation r1Partial_def)
  have h5: "processResult r1Partial (initialState\<lparr>enableLiveTranscription := True\<rparr>)
              = (None, ?s)"
    by (simp add: handler_evaluation r1Partial_def)
  from C10_reupsert_keeps_current_rendering
         [of ?s r1Partial ?s "initialState\<lparr>enableLiveTranscription := True\<rparr>"]
       h1 h2 h3 h4 h5 p
  show ?thesis by blast
qed

text \<open>
  Against claim C10 as stated: after the batch of the partial r1 and the finalized r2,
  whose word is an entity, r1 is held in the result map; sending the identical r1 again
  does not throw, and the rendered blocks are no longer the ones held before: the word of
  r2 has lost its entity highlight, since the entity set was emptied in between.
\<close>

theorem C10_rerender_loses_entity_highlight:
  "jsmap_get (partialTranscriptResultMap
       (handleEvents [Transcript [r1Partial, johnFinal]] initialState)) (resultId r1Partial)
     = Some r1Partial
   \<and> fst (transcriptEventHandler (Transcript [r1Partial])
           (handleEvents [Transcript [r1Partial, johnFinal]] initialState)) = None
   \<and> divs (snd (transcriptEventHandler (Transcript [r1Partial])
           (handleEvents [Transcript [r1Partial, johnFinal]] initialState)))
       \<noteq> divs (handleEvents [Transcript [r1Partial, johnFinal]] initialState)"
  by (simp add: handler_evaluation r1Partial_def johnFinal_def)

section \<open>The flag and the languages of the stored results\<close>

lemma jsmap_set_entries:
  "(k', x) \<in> set (jsmap_set k v m) \<Longrightarrow> x = v \<or> (k', x) \<in> set m"
  by (induction m) (auto split: if_splits)

lemma jsmap_set_values:
  "x \<in> set (map snd (jsmap_set k v m)) \<Longrightarrow> x = v \<or> x \<in> set (map snd m)"
proof -
  assume "x \<in> set (map snd (jsmap_set k v m))"
  then obtain k' where "(k', x) \<in> set (jsmap_set k v m)" by auto
  from jsmap_set_entries [OF this] show ?thesis by (auto simp: rev_image_eqI)
qed

lemma flagCoversResults_processResult:
  assumes "flagCoversResults s"
  shows "flagCoversResults (snd (processResult result s))"
proof -
  define s1 where "s1 = (if noSeparatorLanguage (languageCode result)
                         then s\<lparr>noWordSeparatorForTranscription := True\<rparr> else s)"
  have c1: "flagCoversResults s1"
    "noSeparatorLanguage (languageCode result) \<longrightarrow> noWordSeparatorForTranscription s1"
    using assms by (auto simp: s1_def flagCoversResults_def)
  have unfold: "processResult result s =
      (case addEntities result s1 of
         Inl e \<Rightarrow> (Some e, s1)
       | Inr s2 \<Rightarrow>
          (case renderPartialTranscriptResults (upsert result s2) of
             (Some e, s3) \<Rightarrow> (Some e, s3)
           | (None, s3) \<Rightarrow>
               if isPartial result then (None, s3)
               else (None, finalizeResult result s3)))"
    unfolding processResult_def s1_def Let_def by (rule refl)
  show ?thesis
  proof (cases "addEntities result s1")
    case (Inl e)
    then show ?thesis using c1(1) by (simp add: unfold)
  next
    case (Inr s2)
    have f2: "noWordSeparatorForTranscription s2 = noWordSeparatorForTranscription s1"
      using Inr by (auto simp: addEntities_def split: if_splits list.splits option.splits)
    obtain e s3 where r: "renderPartialTranscriptResults (upsert result s2) = (e, s3)"
      by (cases "renderPartialTranscriptResults (upsert result s2)") auto
    note f = renderPartialTranscriptResults_fields [OF r]
    have m3: "partialTranscriptResultMap s3 =
                jsmap_set (resultId result) result (partialTranscriptResultMap s1)"
      using f(2) addEntities_fields(2) [OF Inr] by (simp add: upsert_def)
    have f3: "noWordSeparatorForTranscription s3 = noWordSeparatorForTranscription s1"
      using f(4) f2 by (simp add: upsert_def)
    have c3: "flagCoversResults s3"
      unfolding flagCoversResults_def
    proof (intro ballI impI)
      fix r assume r: "r \<in> set (jsmap_values (partialTranscriptResultMap s3))"
        and l: "noSeparatorLanguage (languageCode r)"
      from r have "r = result \<or> r \<in> set (map snd (partialTranscriptResultMap s1))"
        unfolding m3 jsmap_values_def by (rule jsmap_set_values)
      then have "noWordSeparatorForTranscription s1"
        using c1 l by (auto simp: flagCoversResults_def jsmap_values_def)
      then show "noWordSeparatorForTranscription s3" by (simp add: f3)
    qed
    have c4: "flagCoversResults (finalizeResult result s3)"
      using c3 by (simp add: finalizeResult_def Let_def flagCoversResults_def jsmap_values_def)
    show ?thesis using c3 c4 by (cases e) (simp_all add: unfold Inr r)
  qed
qed

lemma flagCoversResults_processResults:
  "flagCoversResults s \<Longrightarrow> flagCoversResults (snd (processResults results s))"
proof (induction results arbitrary: s)
  case Nil
  then show ?case by simp
next
  case (Cons r rs)
  obtain e s1 where p: "processResult r s = (e, s1)" by (cases "processResult r s") auto
  have c: "flagCoversResults s1"
    using flagCoversResults_processResult [OF Cons.prems, of r] p by simp
  show ?case using c Cons.IH [OF c] by (cases e) (simp_all add: p)
qed

lemma flagCoversResults_handler:
  assumes "flagCoversResults s"
  shows "flagCoversResults (snd (transcriptEventHandler event s))"
proof (cases event)
  case (Status status)
  then show ?thesis using assms
    by (auto simp: transcriptEventHandler_def processStatus_def Let_def flagCoversResults_def
        jsmap_values_def split: sum.splits)
next
  case (Transcript results)
  let ?s0 = "if \<not> enableLiveTranscription s then s\<lparr>enableLiveTranscription := True\<rparr> else s"
  have "flagCoversResults ?s0" using assms by (simp add: flagCoversResults_def)
  from flagCoversResults_processResults [OF this, of results] Transcript show ?thesis
    by (simp add: transcriptEventHandler_def Let_def)
qed

text \<open>The flag agrees with the stored results in every state the handler can reach.\<close>

lemma flagCoversResults_reachable:
  "flagCoversResults (handleEvents events initialState)"
proof -
  have "flagCoversResults s \<Longrightarrow> flagCoversResults (handleEvents events s)" for s
    by (induction events arbitrary: s)
       (simp_all add: handleEvents_def flagCoversResults_handler)
  then show ?thesis by (simp add: flagCoversResults_def initialState_def jsmap_values_def)
qed

end
